theory Spec2Isabelle
  imports Main "HOL-Library.AList"
begin

section \<open>Python text operations used by the installer\<close>

text \<open>
  Command output and operator input are Python \<open>str\<close> values. They are modelled as
  \<open>string\<close>, one \<open>char\<close> per code point below 256 (Latin-1); \<open>str.lower\<close>,
  \<open>str.strip\<close> and \<open>str.isspace\<close> are written out for that range. Console
  output (\<open>colored_print\<close>) and logging have no effect on control flow and are left out.
\<close>

definition is_space :: "char \<Rightarrow> bool" where
  \<comment> \<open>\<open>str.isspace\<close> on one code point: TAB..CR, FS..US, space, NEL, NBSP\<close>
  "is_space c =
     (let n = (of_char c :: nat)
      in (9 \<le> n \<and> n \<le> 13) \<or> (28 \<le> n \<and> n \<le> 32) \<or> n = 133 \<or> n = 160)"

definition strip :: "string \<Rightarrow> string" where
  \<comment> \<open>\<open>s.strip()\<close>\<close>
  "strip s = rev (dropWhile is_space (rev (dropWhile is_space s)))"

definition lower_chr :: "char \<Rightarrow> char" where
  \<comment> \<open>\<open>A..Z\<close> and the Latin-1 capitals (all of 0xC0..0xDE but the multiplication sign)\<close>
  "lower_chr c =
     (let n = (of_char c :: nat)
      in if (65 \<le> n \<and> n \<le> 90) \<or> (192 \<le> n \<and> n \<le> 222 \<and> n \<noteq> 215)
         then char_of (n + 32) else c)"

definition lower :: "string \<Rightarrow> string" where
  \<comment> \<open>\<open>s.lower()\<close>\<close>
  "lower s = map lower_chr s"

definition starts_with :: "string \<Rightarrow> string \<Rightarrow> bool" where
  "starts_with hay needle = (take (length needle) hay = needle)"

fun is_in :: "string \<Rightarrow> string \<Rightarrow> bool" where
  \<comment> \<open>\<open>needle in hay\<close> on strings\<close>
  "is_in needle [] = (needle = [])"
| "is_in needle (c # cs) = (starts_with (c # cs) needle \<or> is_in needle cs)"

definition replace_nul :: "string \<Rightarrow> string" where
  \<comment> \<open>\<open>s.replace('\x00', '')\<close>\<close>
  "replace_nul s = filter (\<lambda>c. c \<noteq> CHR 0x00) s"

definition says_yes :: "string \<Rightarrow> bool" where
  \<comment> \<open>\<open>answer.lower() in ['y', 'yes']\<close>\<close>
  "says_yes answer = (lower answer \<in> set [''y'', ''yes''])"

section \<open>External processes: \<open>run_command\<close>\<close>

datatype exn = FileNotFoundError | OSError | TimeoutExpired | CalledProcessError | EOFError

definition is_OSError :: "exn \<Rightarrow> bool" where
  \<comment> \<open>\<open>except WindowsError\<close>: \<open>OSError\<close> and its subclasses\<close>
  "is_OSError e = (e = FileNotFoundError \<or> e = OSError)"

datatype proc = NotFound | TimedOut | Exited int string
  \<comment> \<open>what \<open>subprocess.run\<close> meets: no such executable, the 300 s timeout, or an exit
      code with the captured standard output\<close>

record completed =
  returncode :: int
  stdout :: string

text \<open>
  The external programs are not part of the repository. They are a parameter of the model:
  \<open>query\<close> answers the four version and listing commands that the probes issue, which read
  the guest system \<open>'w\<close> without changing it; \<open>exec\<close> runs every other command and may
  change it.
\<close>

record 'w procs =
  query :: "string list \<Rightarrow> 'w \<Rightarrow> proc"
  exec :: "string list \<Rightarrow> 'w \<Rightarrow> proc \<times> 'w"

definition completion :: "bool \<Rightarrow> proc \<Rightarrow> exn + completed" where
  \<comment> \<open>the body of \<open>run_command\<close>: \<open>subprocess.run(command, check=check, ...)\<close>, whose
      exceptions are logged and raised again\<close>
  "completion check p =
     (case p of
        NotFound \<Rightarrow> Inl FileNotFoundError
      | TimedOut \<Rightarrow> Inl TimeoutExpired
      | Exited rc out \<Rightarrow>
          if check \<and> rc \<noteq> 0 then Inl CalledProcessError
          else Inr \<lparr>returncode = rc, stdout = out\<rparr>)"

definition run_query :: "'w procs \<Rightarrow> string list \<Rightarrow> 'w \<Rightarrow> exn + completed" where
  \<comment> \<open>\<open>run_command(command, check=False)\<close> on a read-only command\<close>
  "run_query P command w = completion False (query P command w)"

definition run_command :: "'w procs \<Rightarrow> string list \<Rightarrow> 'w \<Rightarrow> (exn + completed) \<times> 'w" where
  \<comment> \<open>\<open>run_command(command)\<close>, with the default \<open>check=True\<close>\<close>
  "run_command P command w = (case exec P command w of (p, w') \<Rightarrow> (completion True p, w'))"

section \<open>The host\<close>

datatype syscall =
    OpenKey "string list" | CreateKey "string list" | SetValue "string list" string
  | DeleteKey "string list" | Mkdir | WriteFile | Unlink | Rmdir

text \<open>
  The host holds what the installer reads and changes: the elevation check, the Python
  version, the registry hive \<open>HKEY_CLASSES_ROOT\<close> (key path, as a list of components, to
  its values), the entries of \<open>C:/Scripts\<close> (\<open>None\<close> when the directory does not exist;
  file contents are not modelled), the registry and file calls that the operating system
  refuses on this host, and the guest system behind the external commands.
\<close>

record 'w host =
  IsUserAnAdmin :: "int option"
  version_info :: "nat \<times> nat"
  hkcr :: "(string list \<times> (string \<times> string) list) list"
  scripts_dir :: "string list option"
  refuses :: "syscall \<Rightarrow> bool"
  guest :: 'w

definition is_admin :: "'w host \<Rightarrow> bool" where
  \<comment> \<open>\<open>try: return IsUserAnAdmin() except: return False\<close>; callers test its truth value\<close>
  "is_admin h = (case IsUserAnAdmin h of None \<Rightarrow> False | Some r \<Rightarrow> r \<noteq> 0)"

subsection \<open>Registry\<close>

definition bsl :: char where
  "bsl = CHR 0x5C"

fun split_on :: "char \<Rightarrow> string \<Rightarrow> string \<Rightarrow> string list" where
  "split_on sep acc [] = [rev acc]"
| "split_on sep acc (c # cs) =
     (if c = sep then rev acc # split_on sep [] cs else split_on sep (c # acc) cs)"

definition key_path :: "string \<Rightarrow> string list" where
  \<comment> \<open>the components of a registry path; the registry skips repeated separators\<close>
  "key_path p = filter (\<lambda>x. x \<noteq> []) (split_on bsl [] p)"

fun join :: "string \<Rightarrow> string list \<Rightarrow> string" where
  "join sep [] = []"
| "join sep [x] = x"
| "join sep (x # y # ys) = x @ sep @ join sep (y # ys)"

definition has_key :: "'w host \<Rightarrow> string list \<Rightarrow> bool" where
  "has_key h k = (map_of (hkcr h) k \<noteq> None)"

definition winreg_OpenKey :: "'w host \<Rightarrow> string \<Rightarrow> exn + string list" where
  \<comment> \<open>\<open>winreg.OpenKey(HKEY_CLASSES_ROOT, path)\<close>: a handle on an existing key\<close>
  "winreg_OpenKey h p =
     (let k = key_path p
      in if \<not> has_key h k then Inl FileNotFoundError
         else if refuses h (OpenKey k) then Inl OSError
         else Inr k)"

section \<open>Probes\<close>

subsection \<open>\<open>WSLManager\<close>\<close>

definition is_wsl_installed :: "'w procs \<Rightarrow> 'w host \<Rightarrow> exn + bool" where
  \<comment> \<open>only \<open>FileNotFoundError\<close> is caught\<close>
  "is_wsl_installed P h =
     (case run_query P [''wsl'', ''--version''] (guest h) of
        Inr result \<Rightarrow> Inr (returncode result = 0)
      | Inl e \<Rightarrow> if e = FileNotFoundError then Inr False else Inl e)"

definition is_ubuntu_installed :: "'w procs \<Rightarrow> 'w host \<Rightarrow> bool" where
  "is_ubuntu_installed P h =
     (case run_query P [''wsl'', ''-l'', ''-v''] (guest h) of
        Inr result \<Rightarrow>
          if returncode result = 0
          then (let clean_output = strip (replace_nul (stdout result));
                    output_lower = lower clean_output
                in is_in ''ubuntu'' output_lower)
          else False
      | Inl e \<Rightarrow> False)"

subsection \<open>\<open>ClaudeCodeManager\<close>\<close>

definition is_claude_installed :: "'w procs \<Rightarrow> 'w host \<Rightarrow> bool" where
  "is_claude_installed P h =
     (case run_query P [''wsl'', ''-d'', ''Ubuntu'', ''bash'', ''-ic'', ''which claude''] (guest h) of
        Inl e \<Rightarrow> False
      | Inr result \<Rightarrow>
          if returncode result = 0 \<and> strip (stdout result) \<noteq> [] then True
          else (case run_query P [''wsl'', ''-d'', ''Ubuntu'', ''bash'', ''-ic'', ''claude --version'']
                       (guest h) of
                  Inl e \<Rightarrow> False
                | Inr result2 \<Rightarrow> if returncode result2 = 0 then True else False))"

subsection \<open>\<open>ContextMenuManager\<close>\<close>

definition background_key :: string where
  \<comment> \<open>\<open>r"Directory\Background\shell\OpenInClaude"\<close>\<close>
  "background_key = join [bsl] [''Directory'', ''Background'', ''shell'', ''OpenInClaude'']"

definition is_installed :: "'w host \<Rightarrow> bool" where
  \<comment> \<open>open the key, close it, \<open>True\<close>; \<open>except WindowsError: return False\<close>
      (\<open>winreg\<close> raises nothing else)\<close>
  "is_installed h =
     (case winreg_OpenKey h background_key of
        Inr key \<Rightarrow> True
      | Inl e \<Rightarrow> False)"

section \<open>Sequencing with exceptions\<close>

type_synonym ('s, 'a) io = "'s \<Rightarrow> (exn + 'a) \<times> 's"

definition return :: "'a \<Rightarrow> ('s, 'a) io" where
  "return a s = (Inr a, s)"

definition bind :: "('s, 'a) io \<Rightarrow> ('a \<Rightarrow> ('s, 'b) io) \<Rightarrow> ('s, 'b) io" where
  \<comment> \<open>run \<open>m\<close>, then \<open>f\<close> on its value; an exception of \<open>m\<close> skips \<open>f\<close>\<close>
  "bind m f s = (case m s of (Inl e, s') \<Rightarrow> (Inl e, s') | (Inr a, s') \<Rightarrow> f a s')"

definition except_Exception :: "('s, bool) io \<Rightarrow> 's \<Rightarrow> bool \<times> 's" where
  \<comment> \<open>\<open>try: ... except Exception as e: ...; return False\<close>; what the body changed stays\<close>
  "except_Exception m s = (case m s of (Inl e, s') \<Rightarrow> (False, s') | (Inr b, s') \<Rightarrow> (b, s'))"

section \<open>Installers\<close>

subsection \<open>\<open>WSLManager\<close> and \<open>ClaudeCodeManager\<close>\<close>

fun run_commands :: "'w procs \<Rightarrow> string list list \<Rightarrow> ('w, bool) io" where
  \<comment> \<open>consecutive \<open>run_command(...)\<close> statements: the first exception ends the sequence\<close>
  "run_commands P [] w = (Inr True, w)"
| "run_commands P (c # cs) w =
     (case run_command P c w of
        (Inl e, w') \<Rightarrow> (Inl e, w')
      | (Inr result, w') \<Rightarrow> run_commands P cs w')"

definition in_guest :: "('w, bool) io \<Rightarrow> 'w host \<Rightarrow> bool \<times> 'w host" where
  \<comment> \<open>a method whose body is commands under \<open>try: ... except Exception: return False\<close>\<close>
  "in_guest m h = (case except_Exception m (guest h) of (b, w') \<Rightarrow> (b, h\<lparr>guest := w'\<rparr>))"

definition install_wsl :: "'w procs \<Rightarrow> 'w host \<Rightarrow> bool \<times> 'w host" where
  "install_wsl P = in_guest (run_commands P [[''wsl'', ''--install'', ''--no-launch'']])"

definition install_ubuntu :: "'w procs \<Rightarrow> 'w host \<Rightarrow> bool \<times> 'w host" where
  "install_ubuntu P =
     in_guest (run_commands P [[''wsl'', ''--install'', ''-d'', ''Ubuntu'', ''--no-launch'']])"

definition setup_ubuntu_environment :: "'w procs \<Rightarrow> 'w host \<Rightarrow> bool \<times> 'w host" where
  "setup_ubuntu_environment P =
     in_guest (run_commands P
       [[''wsl'', ''-d'', ''Ubuntu'', ''--'', ''sudo'', ''apt'', ''update'', ''-y''],
        [''wsl'', ''-d'', ''Ubuntu'', ''--'', ''sudo'', ''apt'', ''upgrade'', ''-y''],
        [''wsl'', ''-d'', ''Ubuntu'', ''--'', ''sudo'', ''apt'', ''install'', ''-y'',
         ''curl'', ''wget'', ''git'', ''build-essential''],
        [''wsl'', ''-d'', ''Ubuntu'', ''--'', ''curl'', ''-fsSL'',
         ''https://deb.nodesource.com/setup_18.x'', ''|'', ''sudo'', ''-E'', ''bash'', ''-''],
        [''wsl'', ''-d'', ''Ubuntu'', ''--'', ''sudo'', ''apt'', ''install'', ''-y'', ''nodejs''],
        [''wsl'', ''-d'', ''Ubuntu'', ''--'', ''node'', ''--version''],
        [''wsl'', ''-d'', ''Ubuntu'', ''--'', ''npm'', ''--version'']])"

definition install_claude_code :: "'w procs \<Rightarrow> 'w host \<Rightarrow> bool \<times> 'w host" where
  "install_claude_code P =
     in_guest (run_commands P
       [[''wsl'', ''-d'', ''Ubuntu'', ''--'', ''npm'', ''config'', ''set'', ''os'', ''linux''],
        [''wsl'', ''-d'', ''Ubuntu'', ''--'', ''npm'', ''install'', ''-g'',
         ''@anthropic-ai/claude-code'', ''--force'', ''--no-os-check''],
        [''wsl'', ''-d'', ''Ubuntu'', ''--'', ''claude'', ''--version'']])"

subsection \<open>Registry and file calls of \<open>ContextMenuManager\<close>\<close>

definition add_key ::
  "string list \<Rightarrow> (string list \<times> (string \<times> string) list) list
     \<Rightarrow> (string list \<times> (string \<times> string) list) list" where
  "add_key k reg = (if map_of reg k = None then reg @ [(k, [])] else reg)"

definition ensure_key ::
  "string list \<Rightarrow> (string list \<times> (string \<times> string) list) list
     \<Rightarrow> (string list \<times> (string \<times> string) list) list" where
  \<comment> \<open>the key and every missing key on the way to it\<close>
  "ensure_key k reg = fold (\<lambda>n. add_key (take n k)) [1 ..< Suc (length k)] reg"

definition put_value ::
  "string list \<Rightarrow> string \<Rightarrow> string \<Rightarrow> (string list \<times> (string \<times> string) list) list
     \<Rightarrow> (string list \<times> (string \<times> string) list) list" where
  "put_value k name v reg =
     (let reg' = ensure_key k reg
      in AList.update k (AList.update name v (case map_of reg' k of None \<Rightarrow> [] | Some vs \<Rightarrow> vs)) reg')"

definition winreg_CreateKey :: "string list \<Rightarrow> string \<Rightarrow> ('w host, string list) io" where
  \<comment> \<open>\<open>winreg.CreateKey(key, sub_key)\<close>: creates or opens; \<open>[]\<close> is \<open>HKEY_CLASSES_ROOT\<close>\<close>
  "winreg_CreateKey key sub_key h =
     (let k = key @ key_path sub_key
      in if refuses h (CreateKey k) then (Inl OSError, h)
         else (Inr k, h\<lparr>hkcr := ensure_key k (hkcr h)\<rparr>))"

definition winreg_SetValue :: "string list \<Rightarrow> string \<Rightarrow> string \<Rightarrow> ('w host, unit) io" where
  \<comment> \<open>\<open>winreg.SetValue(key, sub_key, REG_SZ, value)\<close>: the default value of the subkey\<close>
  "winreg_SetValue key sub_key v h =
     (let k = key @ key_path sub_key
      in if refuses h (SetValue k []) then (Inl OSError, h)
         else (Inr (), h\<lparr>hkcr := put_value k [] v (hkcr h)\<rparr>))"

definition winreg_SetValueEx :: "string list \<Rightarrow> string \<Rightarrow> string \<Rightarrow> ('w host, unit) io" where
  \<comment> \<open>\<open>winreg.SetValueEx(key, name, 0, REG_SZ, value)\<close>\<close>
  "winreg_SetValueEx key name v h =
     (if refuses h (SetValue key name) then (Inl OSError, h)
      else (Inr (), h\<lparr>hkcr := put_value key name v (hkcr h)\<rparr>))"

definition has_subkey :: "'w host \<Rightarrow> string list \<Rightarrow> bool" where
  "has_subkey h k = (\<exists>k' \<in> set (map fst (hkcr h)). k' \<noteq> k \<and> take (length k) k' = k)"

definition winreg_DeleteKey :: "string \<Rightarrow> ('w host, unit) io" where
  \<comment> \<open>\<open>winreg.DeleteKey(HKEY_CLASSES_ROOT, path)\<close>: the key must exist and have no subkey\<close>
  "winreg_DeleteKey p h =
     (let k = key_path p
      in if \<not> has_key h k then (Inl FileNotFoundError, h)
         else if has_subkey h k \<or> refuses h (DeleteKey k) then (Inl OSError, h)
         else (Inr (), h\<lparr>hkcr := AList.delete k (hkcr h)\<rparr>))"

definition launcher_name :: string where
  "launcher_name = ''open_in_claude.cmd''"

definition launcher_path :: string where
  \<comment> \<open>\<open>str(Path("C:/Scripts") / "open_in_claude.cmd")\<close> on Windows\<close>
  "launcher_path = join [bsl] [''C:'', ''Scripts'', launcher_name]"

definition mkdir_exist_ok :: "('w host, unit) io" where
  \<comment> \<open>\<open>self.scripts_dir.mkdir(exist_ok=True)\<close>\<close>
  "mkdir_exist_ok h =
     (if refuses h Mkdir then (Inl OSError, h)
      else (Inr (), h\<lparr>scripts_dir := Some (case scripts_dir h of None \<Rightarrow> [] | Some names \<Rightarrow> names)\<rparr>))"

definition write_launcher :: "('w host, unit) io" where
  \<comment> \<open>\<open>with open(self.launcher_path, 'w', encoding='utf-8') as f: f.write(launcher_code)\<close>\<close>
  "write_launcher h =
     (case scripts_dir h of
        None \<Rightarrow> (Inl FileNotFoundError, h)
      | Some names \<Rightarrow>
          if refuses h WriteFile then (Inl OSError, h)
          else (Inr (), h\<lparr>scripts_dir := Some (List.insert launcher_name names)\<rparr>))"

definition launcher_exists :: "'w host \<Rightarrow> bool" where
  \<comment> \<open>\<open>self.launcher_path.exists()\<close>\<close>
  "launcher_exists h = (case scripts_dir h of None \<Rightarrow> False | Some names \<Rightarrow> launcher_name \<in> set names)"

definition unlink_launcher :: "('w host, unit) io" where
  \<comment> \<open>\<open>self.launcher_path.unlink()\<close>\<close>
  "unlink_launcher h =
     (if \<not> launcher_exists h then (Inl FileNotFoundError, h)
      else if refuses h Unlink then (Inl OSError, h)
      else (Inr (), h\<lparr>scripts_dir := map_option (removeAll launcher_name) (scripts_dir h)\<rparr>))"

definition rmdir_if_empty :: "'w host \<Rightarrow> 'w host" where
  \<comment> \<open>\<open>try: if exists and not any(iterdir()): rmdir() except: pass\<close>\<close>
  "rmdir_if_empty h =
     (if scripts_dir h = Some [] \<and> \<not> refuses h Rmdir then h\<lparr>scripts_dir := None\<rparr> else h)"

definition pass_WindowsError :: "('w host, unit) io \<Rightarrow> ('w host, unit) io" where
  \<comment> \<open>\<open>try: ... except WindowsError: pass\<close>\<close>
  "pass_WindowsError m h =
     (case m h of
        (Inl e, h') \<Rightarrow> if is_OSError e then (Inr (), h') else (Inl e, h')
      | (Inr u, h') \<Rightarrow> (Inr (), h'))"

subsection \<open>\<open>ContextMenuManager\<close>\<close>

definition dq :: char where
  "dq = CHR 0x22"

definition folder_key_raw :: string where
  \<comment> \<open>\<open>r"Directory\\shell\\OpenInClaude"\<close>: a raw string, so the backslashes are doubled\<close>
  "folder_key_raw = join [bsl, bsl] [''Directory'', ''shell'', ''OpenInClaude'']"

definition background_key_raw :: string where
  \<comment> \<open>\<open>r"Directory\\Background\\shell\\OpenInClaude"\<close>\<close>
  "background_key_raw = join [bsl, bsl] [''Directory'', ''Background'', ''shell'', ''OpenInClaude'']"

definition icon :: string where
  "icon = join [bsl] [''C:'', ''Windows'', ''System32'', ''cmd.exe,0'']"

definition create_launcher_script :: "'w host \<Rightarrow> bool \<times> 'w host" where
  "create_launcher_script =
     except_Exception
       (bind mkdir_exist_ok (\<lambda>_.
        bind write_launcher (\<lambda>_.
        return True)))"

definition menu_entry :: "string \<Rightarrow> string \<Rightarrow> ('w host, unit) io" where
  \<comment> \<open>the same seven statements for the folder background (\<open>%V\<close>) and for folders (\<open>%1\<close>)\<close>
  "menu_entry path arg =
     bind (winreg_CreateKey [] path) (\<lambda>key.
     bind (winreg_SetValue key [] ''Open in Claude Code'') (\<lambda>_.
     bind (winreg_SetValueEx key ''Icon'' icon) (\<lambda>_.
     bind (winreg_CreateKey key ''command'') (\<lambda>cmd_key.
     winreg_SetValue cmd_key [] ([dq] @ launcher_path @ [dq] @ '' '' @ [dq] @ arg @ [dq])))))"

definition install_context_menu :: "'w host \<Rightarrow> bool \<times> 'w host" where
  "install_context_menu =
     except_Exception
       (\<lambda>h. case create_launcher_script h of
          (created, h') \<Rightarrow>
            if \<not> created then (Inr False, h')
            else bind (menu_entry background_key_raw ''%V'') (\<lambda>_.
                 bind (menu_entry folder_key_raw ''%1'') (\<lambda>_.
                 return True)) h')"

definition delete_entry :: "string \<Rightarrow> ('w host, unit) io" where
  "delete_entry path =
     pass_WindowsError
       (bind (winreg_DeleteKey (path @ [bsl, bsl] @ ''command'')) (\<lambda>_.
        winreg_DeleteKey path))"

definition uninstall_context_menu :: "'w host \<Rightarrow> bool \<times> 'w host" where
  "uninstall_context_menu =
     except_Exception
       (bind (delete_entry background_key_raw) (\<lambda>_.
        bind (delete_entry folder_key_raw) (\<lambda>_.
        bind (\<lambda>h. if launcher_exists h then unlink_launcher h else (Inr (), h)) (\<lambda>_.
        bind (\<lambda>h. (Inr (), rmdir_if_empty h)) (\<lambda>_.
        return True)))))"

section \<open>\<open>ClaudeInstaller\<close>: the console modes\<close>

text \<open>
  A run works on a session: the host, the lines the operator will type, and a trace. The
  trace is a record of what the run did, kept for stating the properties below; the source
  has no such record. It lists every call of a manager method with the value it
  returned (or the exception it raised), every command the mode runs itself, and every
  prompt with its answer.
\<close>

datatype call =
    IsWslInstalled | IsUbuntuInstalled | IsClaudeInstalled | IsInstalled
  | InstallWsl | InstallUbuntu | SetupUbuntuEnvironment | InstallClaudeCode
  | InstallContextMenu | UninstallContextMenu

datatype event =
    Called call bool | Raised call exn | Ran "string list" | Asked string string

record 'w session =
  machine :: "'w host"
  stdin :: "string list"
  trace :: "event list"

definition probe :: "call \<Rightarrow> ('w host \<Rightarrow> exn + bool) \<Rightarrow> ('w session, bool) io" where
  \<comment> \<open>a call of a method that only reads the host\<close>
  "probe c f s =
     (case f (machine s) of
        Inl e \<Rightarrow> (Inl e, s\<lparr>trace := trace s @ [Raised c e]\<rparr>)
      | Inr b \<Rightarrow> (Inr b, s\<lparr>trace := trace s @ [Called c b]\<rparr>))"

definition invoke :: "call \<Rightarrow> ('w host \<Rightarrow> bool \<times> 'w host) \<Rightarrow> ('w session, bool) io" where
  \<comment> \<open>a call of a method that may change the host\<close>
  "invoke c f s =
     (case f (machine s) of
        (b, h') \<Rightarrow> (Inr b, s\<lparr>machine := h', trace := trace s @ [Called c b]\<rparr>))"

definition input :: "string \<Rightarrow> ('w session, string) io" where
  \<comment> \<open>\<open>input(prompt)\<close>: the next line of standard input, \<open>EOFError\<close> when there is none\<close>
  "input prompt s =
     (case stdin s of
        [] \<Rightarrow> (Inl EOFError, s)
      | answer # rest \<Rightarrow> (Inr answer, s\<lparr>stdin := rest, trace := trace s @ [Asked prompt answer]\<rparr>))"

definition check_prerequisites :: "'w host \<Rightarrow> bool" where
  \<comment> \<open>\<open>sys.version_info < (3, 6)\<close> compares tuples lexicographically\<close>
  "check_prerequisites h =
     (if \<not> is_admin h then False
      else if fst (version_info h) < 3 \<or> (fst (version_info h) = 3 \<and> snd (version_info h) < 6)
      then False
      else True)"

definition and_then :: "('s, bool) io \<Rightarrow> ('s, bool) io \<Rightarrow> ('s, bool) io" where
  \<comment> \<open>a block of \<open>install_full\<close> yields \<open>False\<close> where the source has \<open>return False\<close>, and
      \<open>True\<close> where control falls through to the next block\<close>
  "and_then block rest = bind block (\<lambda>go_on. if go_on then rest else return False)"

definition install_wsl_if_needed :: "'w procs \<Rightarrow> ('w session, bool) io" where
  "install_wsl_if_needed P =
     bind (probe IsWslInstalled (is_wsl_installed P)) (\<lambda>installed.
       if \<not> installed then
         bind (invoke InstallWsl (install_wsl P)) (\<lambda>ok.
           if \<not> ok then return False
           else bind (input ''Do you need to restart your computer now? (y/n): '') (\<lambda>restart.
             if says_yes restart then return False else return True))
       else return True)"

definition install_ubuntu_if_needed :: "'w procs \<Rightarrow> ('w session, bool) io" where
  "install_ubuntu_if_needed P =
     bind (probe IsUbuntuInstalled (\<lambda>h. Inr (is_ubuntu_installed P h))) (\<lambda>installed.
       if \<not> installed then
         bind (invoke InstallUbuntu (install_ubuntu P)) (\<lambda>ok.
           if \<not> ok then return False else return True)
       else return True)"

definition setup_ubuntu_environment_if_needed :: "'w procs \<Rightarrow> ('w session, bool) io" where
  "setup_ubuntu_environment_if_needed P =
     bind (probe IsClaudeInstalled (\<lambda>h. Inr (is_claude_installed P h))) (\<lambda>installed.
       if installed then return True
       else
         bind (invoke SetupUbuntuEnvironment (setup_ubuntu_environment P)) (\<lambda>ok.
           if \<not> ok then return False else return True))"

definition install_claude_code_if_needed :: "'w procs \<Rightarrow> ('w session, bool) io" where
  "install_claude_code_if_needed P =
     bind (probe IsClaudeInstalled (\<lambda>h. Inr (is_claude_installed P h))) (\<lambda>installed.
       if \<not> installed then
         bind (invoke InstallClaudeCode (install_claude_code P)) (\<lambda>ok.
           if \<not> ok then return False else return True)
       else return True)"

definition install_context_menu_if_needed :: "('w session, bool) io" where
  \<comment> \<open>on the update path the results of both calls are dropped\<close>
  "install_context_menu_if_needed =
     bind (probe IsInstalled (\<lambda>h. Inr (is_installed h))) (\<lambda>installed.
       if \<not> installed then
         bind (invoke InstallContextMenu install_context_menu) (\<lambda>ok.
           if \<not> ok then return False else return True)
       else
         bind (input ''Do you want to update the existing installation? (y/n): '') (\<lambda>update.
           if says_yes update then
             bind (invoke UninstallContextMenu uninstall_context_menu) (\<lambda>_.
             bind (invoke InstallContextMenu install_context_menu) (\<lambda>_.
             return True))
           else return True))"

definition install_full :: "'w procs \<Rightarrow> ('w session, bool) io" where
  "install_full P s =
     (if \<not> check_prerequisites (machine s) then (Inr False, s)
      else
        and_then (install_wsl_if_needed P)
       (and_then (install_ubuntu_if_needed P)
       (and_then (setup_ubuntu_environment_if_needed P)
       (and_then (install_claude_code_if_needed P)
        install_context_menu_if_needed))) s)"

definition install_context_menu_only :: "'w procs \<Rightarrow> ('w session, bool) io" where
  "install_context_menu_only P s =
     (if \<not> check_prerequisites (machine s) then (Inr False, s)
      else
        bind (probe IsClaudeInstalled (\<lambda>h. Inr (is_claude_installed P h))) (\<lambda>installed.
          if \<not> installed then
            bind (input ''Do you want to continue anyway? (y/n): '') (\<lambda>continue_anyway.
              if \<not> says_yes continue_anyway then return False
              else invoke InstallContextMenu install_context_menu)
          else invoke InstallContextMenu install_context_menu) s)"

definition uninstall :: "('w session, bool) io" where
  "uninstall s =
     (if \<not> check_prerequisites (machine s) then (Inr False, s)
      else
        bind (probe IsInstalled (\<lambda>h. Inr (is_installed h))) (\<lambda>installed.
          if \<not> installed then return True
          else invoke UninstallContextMenu uninstall_context_menu) s)"

definition debug_listing :: "'w procs \<Rightarrow> ('w session, unit) io" where
  \<comment> \<open>\<open>try: result = run_command(['wsl', '-l', '-v'], check=False); ... except Exception\<close>:
      the result is only printed\<close>
  "debug_listing P s =
     (case run_query P [''wsl'', ''-l'', ''-v''] (guest (machine s)) of
        Inl e \<Rightarrow> (Inr (), s\<lparr>trace := trace s @ [Ran [''wsl'', ''-l'', ''-v'']]\<rparr>)
      | Inr result \<Rightarrow> (Inr (), s\<lparr>trace := trace s @ [Ran [''wsl'', ''-l'', ''-v'']]\<rparr>))"

definition show_status :: "'w procs \<Rightarrow> ('w session, unit) io" where
  "show_status P =
     bind (probe IsWslInstalled (is_wsl_installed P)) (\<lambda>wsl_installed.
     bind (probe IsUbuntuInstalled (\<lambda>h. Inr (is_ubuntu_installed P h))) (\<lambda>ubuntu_installed.
     bind (if \<not> ubuntu_installed then debug_listing P else return ()) (\<lambda>_.
     bind (probe IsClaudeInstalled (\<lambda>h. Inr (is_claude_installed P h))) (\<lambda>_.
     bind (probe IsInstalled (\<lambda>h. Inr (is_installed h))) (\<lambda>_.
     return ())))))"

subsection \<open>\<open>main\<close>\<close>

record args =
  arg_context_only :: bool
  arg_uninstall :: bool
  arg_status :: bool
  arg_gui :: bool
  arg_console :: bool

datatype exit = Exit nat | GuiSession
  \<comment> \<open>the exit status of the process, or the Tk main loop took over (not modelled further)\<close>

definition no_arguments :: "args \<Rightarrow> bool" where
  \<comment> \<open>\<open>len(sys.argv) == 1\<close>: no flag was given\<close>
  "no_arguments a =
     (\<not> arg_context_only a \<and> \<not> arg_uninstall a \<and> \<not> arg_status a \<and> \<not> arg_gui a \<and> \<not> arg_console a)"

definition sys_exit :: "(exn + bool) \<times> 's \<Rightarrow> exit \<times> 's" where
  \<comment> \<open>\<open>sys.exit(0 if success else 1)\<close>; \<open>except Exception: ... sys.exit(1)\<close>\<close>
  "sys_exit r =
     (case r of
        (Inl e, s') \<Rightarrow> (Exit 1, s')
      | (Inr success, s') \<Rightarrow> (Exit (if success then 0 else 1), s'))"

definition main :: "'w procs \<Rightarrow> bool \<Rightarrow> args \<Rightarrow> 'w session \<Rightarrow> exit \<times> 'w session" where
  \<comment> \<open>\<open>gui_starts\<close>: whether \<open>ClaudeInstallerGUI()\<close> and its main loop run without an
      exception. Without arguments a GUI that fails falls back to the console mode.\<close>
  "main P gui_starts a s =
     (if no_arguments a \<and> \<not> arg_console a \<and> gui_starts then (GuiSession, s)
      else if arg_status a then
        (case show_status P s of
           (Inl e, s') \<Rightarrow> (Exit 1, s')
         | (Inr u, s') \<Rightarrow> (Exit 0, s'))
      else if arg_uninstall a then sys_exit (uninstall s)
      else if arg_context_only a then sys_exit (install_context_menu_only P s)
      else if arg_gui a then (if gui_starts then (GuiSession, s) else (Exit 1, s))
      else sys_exit (install_full P s))"

section \<open>Vocabulary of the specification\<close>

datatype stage = VirtualizationLayer | GuestDistribution | ApplicationRuntimeApp | ShellIntegration

fun position :: "stage \<Rightarrow> nat" where
  "position VirtualizationLayer = 0"
| "position GuestDistribution = 1"
| "position ApplicationRuntimeApp = 2"
| "position ShellIntegration = 3"

fun stage_of :: "call \<Rightarrow> stage" where
  "stage_of IsWslInstalled = VirtualizationLayer"
| "stage_of InstallWsl = VirtualizationLayer"
| "stage_of IsUbuntuInstalled = GuestDistribution"
| "stage_of InstallUbuntu = GuestDistribution"
| "stage_of IsClaudeInstalled = ApplicationRuntimeApp"
| "stage_of SetupUbuntuEnvironment = ApplicationRuntimeApp"
| "stage_of InstallClaudeCode = ApplicationRuntimeApp"
| "stage_of IsInstalled = ShellIntegration"
| "stage_of InstallContextMenu = ShellIntegration"
| "stage_of UninstallContextMenu = ShellIntegration"

fun probe_of :: "stage \<Rightarrow> call" where
  "probe_of VirtualizationLayer = IsWslInstalled"
| "probe_of GuestDistribution = IsUbuntuInstalled"
| "probe_of ApplicationRuntimeApp = IsClaudeInstalled"
| "probe_of ShellIntegration = IsInstalled"

definition is_apply :: "call \<Rightarrow> bool" where
  "is_apply c = (c \<in> set [InstallWsl, InstallUbuntu, SetupUbuntuEnvironment, InstallClaudeCode,
                           InstallContextMenu])"

definition is_probe :: "call \<Rightarrow> bool" where
  "is_probe c = (c \<in> set [IsWslInstalled, IsUbuntuInstalled, IsClaudeInstalled, IsInstalled])"

fun touches :: "event \<Rightarrow> stage option" where
  \<comment> \<open>the stage an event belongs to\<close>
  "touches (Called c b) = Some (stage_of c)"
| "touches (Raised c e) = Some (stage_of c)"
| "touches (Ran command) = None"
| "touches (Asked prompt answer) = None"

fun reads_only :: "event \<Rightarrow> bool" where
  \<comment> \<open>a probe, a read-only command or a prompt: nothing that applies or reverses a stage\<close>
  "reads_only (Called c b) = is_probe c"
| "reads_only (Raised c e) = is_probe c"
| "reads_only (Ran command) = True"
| "reads_only (Asked prompt answer) = True"

definition start :: "'w host \<Rightarrow> string list \<Rightarrow> 'w session" where
  \<comment> \<open>the beginning of a run: nothing done yet\<close>
  "start h answers = \<lparr>machine = h, stdin = answers, trace = []\<rparr>"

definition ci_occurs :: "string \<Rightarrow> string \<Rightarrow> bool" where
  \<comment> \<open>\<open>name\<close> appears in \<open>text\<close> as a substring, up to the case of letters\<close>
  "ci_occurs name text = (\<exists>before mid after. text = before @ mid @ after \<and> lower mid = lower name)"

definition spec_two_phase_or :: "'w procs \<Rightarrow> 'w host \<Rightarrow> bool" where
  \<comment> \<open>the probe in the specification's words: phase 1 exits 0 with non-empty output, or
      phase 2 exits 0\<close>
  "spec_two_phase_or P h =
     ((case query P [''wsl'', ''-d'', ''Ubuntu'', ''bash'', ''-ic'', ''which claude''] (guest h) of
         Exited rc out \<Rightarrow> rc = 0 \<and> out \<noteq> []
       | _ \<Rightarrow> False)
      \<or> (case query P [''wsl'', ''-d'', ''Ubuntu'', ''bash'', ''-ic'', ''claude --version'']
                (guest h) of
            Exited rc out \<Rightarrow> rc = 0
          | _ \<Rightarrow> False))"

section \<open>Vocabulary for runs of \<open>install_full\<close>\<close>

text \<open>
  The shape of a block of \<open>install_full\<close>: the value the block yields and the events it
  adds to the trace. A chain of shapes describes blocks run in order, each one reached
  only when the block before it yielded \<open>True\<close>.
\<close>

definition wsl_shape :: "(exn + bool) \<Rightarrow> event list \<Rightarrow> bool" where
  "wsl_shape r evs =
     ((\<exists>e. r = Inl e \<and> evs = [Raised IsWslInstalled e])
    \<or> (r = Inr True \<and> evs = [Called IsWslInstalled True])
    \<or> (r = Inr False \<and> evs = [Called IsWslInstalled False, Called InstallWsl False])
    \<or> (r = Inl EOFError \<and> evs = [Called IsWslInstalled False, Called InstallWsl True])
    \<or> (\<exists>answer. r = Inr (\<not> says_yes answer)
           \<and> evs = [Called IsWslInstalled False, Called InstallWsl True,
                     Asked ''Do you need to restart your computer now? (y/n): '' answer]))"

definition step_shape :: "call \<Rightarrow> call \<Rightarrow> (exn + bool) \<Rightarrow> event list \<Rightarrow> bool" where
  "step_shape p a r evs =
     ((r = Inr True \<and> evs = [Called p True])
    \<or> (\<exists>ok. r = Inr ok \<and> evs = [Called p False, Called a ok]))"

definition menu_shape :: "(exn + bool) \<Rightarrow> event list \<Rightarrow> bool" where
  "menu_shape r evs =
     ((\<exists>ok. r = Inr ok \<and> evs = [Called IsInstalled False, Called InstallContextMenu ok])
    \<or> (r = Inl EOFError \<and> evs = [Called IsInstalled True])
    \<or> (\<exists>answer. \<not> says_yes answer \<and> r = Inr True
           \<and> evs = [Called IsInstalled True,
                     Asked ''Do you want to update the existing installation? (y/n): '' answer])
    \<or> (\<exists>answer removed ok. says_yes answer \<and> r = Inr True
           \<and> evs = [Called IsInstalled True,
                     Asked ''Do you want to update the existing installation? (y/n): '' answer,
                     Called UninstallContextMenu removed, Called InstallContextMenu ok]))"

fun chain :: "((exn + bool) \<Rightarrow> event list \<Rightarrow> bool) list \<Rightarrow> (exn + bool) \<Rightarrow> event list \<Rightarrow> bool" where
  "chain [] r evs = (r = Inr True \<and> evs = [])"
| "chain (shape # rest) r evs =
     (\<exists>r1 e1 e2. evs = e1 @ e2 \<and> shape r1 e1
        \<and> (if r1 = Inr True then chain rest r e2 else r = r1 \<and> e2 = []))"


definition full_shapes :: "((exn + bool) \<Rightarrow> event list \<Rightarrow> bool) list" where
  "full_shapes =
     [wsl_shape, step_shape IsUbuntuInstalled InstallUbuntu,
      step_shape IsClaudeInstalled SetupUbuntuEnvironment,
      step_shape IsClaudeInstalled InstallClaudeCode, menu_shape]"


text \<open>
  What a trace says about a stage: it was reached (probed or applied); it is settled
  (found satisfied or applied, with no failed apply).
\<close>

fun applies_of :: "stage \<Rightarrow> call list" where
  "applies_of VirtualizationLayer = [InstallWsl]"
| "applies_of GuestDistribution = [InstallUbuntu]"
| "applies_of ApplicationRuntimeApp = [SetupUbuntuEnvironment, InstallClaudeCode]"
| "applies_of ShellIntegration = [InstallContextMenu]"

definition reached :: "event list \<Rightarrow> stage \<Rightarrow> bool" where
  "reached tr st = (\<exists>e \<in> set tr. touches e = Some st)"

definition settled :: "event list \<Rightarrow> stage \<Rightarrow> bool" where
  "settled tr st =
     ((Called (probe_of st) True \<in> set tr \<or> (\<exists>a \<in> set (applies_of st). Called a True \<in> set tr))
      \<and> (\<forall>a \<in> set (applies_of st). Called a False \<notin> set tr))"

definition within :: "stage \<Rightarrow> event list \<Rightarrow> bool" where
  "within st evs = (\<forall>e \<in> set evs. touches e = Some st \<or> touches e = None)"

definition fails :: "event list \<Rightarrow> call \<Rightarrow> bool" where
  "fails evs a = (is_apply a \<and> Called a False \<in> set evs)"


text \<open>
  How often a method is called in a trace, and what warrants the call of an install: the
  probe of its stage returned unsatisfied or, for the context menu, the probe returned
  satisfied and the operator said yes to the update prompt.
\<close>

fun names :: "event \<Rightarrow> call option" where
  "names (Called c b) = Some c"
| "names (Raised c e) = Some c"
| "names (Ran command) = None"
| "names (Asked prompt answer) = None"

definition times :: "call \<Rightarrow> event list \<Rightarrow> nat" where
  "times c tr = length (filter (\<lambda>e. names e = Some c) tr)"

definition update_confirmed :: "event list \<Rightarrow> bool" where
  "update_confirmed tr =
     (\<exists>e \<in> set tr. case e of
        Asked prompt answer \<Rightarrow>
          prompt = ''Do you want to update the existing installation? (y/n): '' \<and> says_yes answer
      | _ \<Rightarrow> False)"

definition warranted :: "call \<Rightarrow> event list \<Rightarrow> bool" where
  "warranted a tr =
     (Called (probe_of (stage_of a)) False \<in> set tr
      \<or> (a = InstallContextMenu \<and> Called IsInstalled True \<in> set tr \<and> update_confirmed tr))"

definition calls_warranted :: "call \<Rightarrow> event list \<Rightarrow> bool" where
  "calls_warranted a e = ((\<exists>b. Called a b \<in> set e) \<longrightarrow> warranted a e)"



definition grows :: "('w host, 'a) io \<Rightarrow> bool" where
  "grows m = (\<forall>h r h' k. m h = (r, h') \<longrightarrow> has_key h k \<longrightarrow> has_key h' k)"





section \<open>Example hosts\<close>

definition table_procs :: "(string list \<times> proc) list \<Rightarrow> unit procs" where
  \<comment> \<open>external programs that answer from a fixed table; a command not in it is not found\<close>
  "table_procs tbl =
     \<lparr>query = (\<lambda>command w. case map_of tbl command of None \<Rightarrow> NotFound | Some p \<Rightarrow> p),
      exec = (\<lambda>command w. (case map_of tbl command of None \<Rightarrow> NotFound | Some p \<Rightarrow> p, w))\<rparr>"

definition bare_host :: "unit host" where
  \<comment> \<open>elevated, Python 3.11, no context-menu keys, no \<open>C:/Scripts\<close>, nothing refused\<close>
  "bare_host =
     \<lparr>IsUserAnAdmin = Some 1, version_info = (3, 11), hkcr = [], scripts_dir = None,
      refuses = (\<lambda>call. False), guest = ()\<rparr>"

definition utf16_listing :: string where
  \<comment> \<open>the start of a \<open>wsl -l -v\<close> listing as it arrives with NUL bytes in it\<close>
  "utf16_listing =
     [CHR ''*'', CHR 0x00, CHR '' '', CHR 0x00, CHR ''U'', CHR 0x00, CHR ''b'', CHR 0x00,
      CHR ''u'', CHR 0x00, CHR ''n'', CHR 0x00, CHR ''t'', CHR 0x00, CHR ''u'', CHR 0x00,
      CHR 0x0A, CHR 0x00]"

definition wsl_install_fails :: "unit procs" where
  "wsl_install_fails =
     table_procs [([''wsl'', ''--version''], Exited 1 []),
                  ([''wsl'', ''--install'', ''--no-launch''], Exited 1 [])]"

definition ubuntu_install_fails :: "unit procs" where
  "ubuntu_install_fails =
     table_procs [([''wsl'', ''--version''], Exited 0 ''WSL version: 2.0.9.0''),
                  ([''wsl'', ''-l'', ''-v''], Exited 0 []),
                  ([''wsl'', ''--install'', ''-d'', ''Ubuntu'', ''--no-launch''], Exited 1 [])]"

definition all_installed :: "unit procs" where
  "all_installed =
     table_procs [([''wsl'', ''--version''], Exited 0 ''WSL version: 2.0.9.0''),
                  ([''wsl'', ''-l'', ''-v''], Exited 0 utf16_listing),
                  ([''wsl'', ''-d'', ''Ubuntu'', ''bash'', ''-ic'', ''which claude''],
                   Exited 0 ''/usr/local/bin/claude'')]"

definition menu_host :: "unit host" where
  \<comment> \<open>the bare host after a context-menu install\<close>
  "menu_host = snd (install_context_menu bare_host)"

definition unelevated_host :: "unit host" where
  "unelevated_host = bare_host\<lparr>IsUserAnAdmin := Some 0\<rparr>"

definition wsl_hangs :: "unit procs" where
  \<comment> \<open>a WSL service that hangs: no query finishes within the timeout\<close>
  "wsl_hangs =
     table_procs [([''wsl'', ''--version''], TimedOut),
                  ([''wsl'', ''-l'', ''-v''], TimedOut),
                  ([''wsl'', ''-d'', ''Ubuntu'', ''bash'', ''-ic'', ''which claude''], TimedOut)]"

definition only_flag :: "string \<Rightarrow> args" where
  \<comment> \<open>the parsed command line with one flag given\<close>
  "only_flag f =
     \<lparr>arg_context_only = (f = ''--context-only''), arg_uninstall = (f = ''--uninstall''),
      arg_status = (f = ''--status''), arg_gui = (f = ''--gui''),
      arg_console = (f = ''--console'')\<rparr>"

definition blank_locate :: "unit procs" where
  \<comment> \<open>\<open>which claude\<close> exits 0 and prints an empty line; \<open>claude --version\<close> fails\<close>
  "blank_locate =
     table_procs [([''wsl'', ''-d'', ''Ubuntu'', ''bash'', ''-ic'', ''which claude''],
                   Exited 0 [CHR 0x0A]),
                  ([''wsl'', ''-d'', ''Ubuntu'', ''bash'', ''-ic'', ''claude --version''],
                   Exited 127 [])]"

definition version_only :: "unit procs" where
  \<comment> \<open>\<open>which claude\<close> finds nothing; \<open>claude --version\<close> works\<close>
  "version_only =
     table_procs [([''wsl'', ''-d'', ''Ubuntu'', ''bash'', ''-ic'', ''which claude''],
                   Exited 1 []),
                  ([''wsl'', ''-d'', ''Ubuntu'', ''bash'', ''-ic'', ''claude --version''],
                   Exited 0 ''1.0.3 (Claude Code)'')]"

definition background_only_host :: "unit host" where
  \<comment> \<open>only the folder-background key exists: no folder key, no launcher\<close>
  "background_only_host =
     bare_host\<lparr>hkcr := [([''Directory'', ''Background'', ''shell'', ''OpenInClaude''], [])]\<rparr>"






section \<open>Text lemmas\<close>

lemma starts_with_iff: "starts_with hay needle \<longleftrightarrow> (\<exists>after. hay = needle @ after)"
  unfolding starts_with_def
  by (metis append_eq_conv_conj append_take_drop_id)

lemma is_in_iff: "is_in needle hay \<longleftrightarrow> (\<exists>before after. hay = before @ needle @ after)"
proof (induction hay)
  case Nil
  then show ?case by auto
next
  case (Cons c cs)
  show ?case
  proof
    assume "is_in needle (c # cs)"
    then consider "starts_with (c # cs) needle" | "is_in needle cs" by auto
    then show "\<exists>before after. c # cs = before @ needle @ after"
    proof cases
      case 1
      then obtain after where "c # cs = needle @ after" by (auto simp: starts_with_iff)
      then have "c # cs = [] @ needle @ after" by simp
      then show ?thesis by blast
    next
      case 2
      then obtain before after where "cs = before @ needle @ after" using Cons.IH by auto
      then have "c # cs = (c # before) @ needle @ after" by simp
      then show ?thesis by blast
    qed
  next
    assume "\<exists>before after. c # cs = before @ needle @ after"
    then obtain before after where eq: "c # cs = before @ needle @ after" by auto
    show "is_in needle (c # cs)"
    proof (cases before)
      case Nil
      then have "starts_with (c # cs) needle" using eq by (auto simp: starts_with_iff)
      then show ?thesis by simp
    next
      case (Cons b bs)
      then have "cs = bs @ needle @ after" using eq by simp
      then have "is_in needle cs" using Cons.IH by blast
      then show ?thesis by simp
    qed
  qed
qed

lemma is_in_dropWhile:
  assumes "needle \<noteq> []" and "\<And>c. skip c \<Longrightarrow> f c \<noteq> hd needle"
  shows "is_in needle (map f (dropWhile skip hay)) = is_in needle (map f hay)"
proof (induction hay)
  case Nil
  then show ?case by simp
next
  case (Cons c cs)
  show ?case
  proof (cases "skip c")
    case True
    then have "f c \<noteq> hd needle" using assms(2) by simp
    then have "\<not> starts_with (f c # map f cs) needle"
      using assms(1) by (cases needle) (auto simp: starts_with_def)
    then show ?thesis using True Cons.IH by simp
  next
    case False
    then show ?thesis by simp
  qed
qed

lemma is_in_rev: "is_in (rev needle) (rev hay) = is_in needle hay"
proof -
  have "(\<exists>before after. rev hay = before @ rev needle @ after)
      = (\<exists>before after. hay = before @ needle @ after)"
  proof
    assume "\<exists>before after. rev hay = before @ rev needle @ after"
    then obtain b a where "rev hay = b @ rev needle @ a" by auto
    then have "rev (rev hay) = rev (b @ rev needle @ a)" by simp
    then have "hay = rev a @ needle @ rev b" by simp
    then show "\<exists>before after. hay = before @ needle @ after" by blast
  next
    assume "\<exists>before after. hay = before @ needle @ after"
    then obtain b a where "hay = b @ needle @ a" by auto
    then have "rev hay = rev a @ rev needle @ rev b" by simp
    then show "\<exists>before after. rev hay = before @ rev needle @ after" by blast
  qed
  then show ?thesis by (simp add: is_in_iff)
qed

lemma space_not_lowered:
  assumes "is_space c"
  shows "lower_chr c = c"
proof -
  define n where "n = (of_char c :: nat)"
  have "(9 \<le> n \<and> n \<le> 13) \<or> (28 \<le> n \<and> n \<le> 32) \<or> n = 133 \<or> n = 160"
    using assms unfolding is_space_def Let_def n_def .
  then have "\<not> ((65 \<le> n \<and> n \<le> 90) \<or> (192 \<le> n \<and> n \<le> 222 \<and> n \<noteq> 215))"
    by arith
  then have "(if (65 \<le> n \<and> n \<le> 90) \<or> (192 \<le> n \<and> n \<le> 222 \<and> n \<noteq> 215)
              then char_of (n + 32) else c) = c"
    by (rule if_not_P)
  then show ?thesis
    unfolding lower_chr_def Let_def n_def .
qed

lemma u_not_space: "\<not> is_space CHR ''u''"
  unfolding is_space_def Let_def by simp

lemma space_not_u: "is_space c \<Longrightarrow> lower_chr c \<noteq> CHR ''u''"
  using space_not_lowered u_not_space by force

lemma is_in_strip: "is_in ''ubuntu'' (lower (strip s)) = is_in ''ubuntu'' (lower s)"
proof -
  have a: "is_in ''ubuntu'' (map lower_chr (rev (dropWhile is_space (rev t))))
         = is_in ''ubuntu'' (map lower_chr t)" for t
  proof -
    have "is_in ''ubuntu'' (map lower_chr (rev (dropWhile is_space (rev t))))
        = is_in (rev ''ubuntu'') (rev (map lower_chr (rev (dropWhile is_space (rev t)))))"
      by (simp only: is_in_rev)
    also have "\<dots> = is_in (rev ''ubuntu'') (map lower_chr (dropWhile is_space (rev t)))"
      by (simp add: rev_map)
    also have "\<dots> = is_in (rev ''ubuntu'') (map lower_chr (rev t))"
      by (rule is_in_dropWhile) (simp_all add: space_not_u)
    also have "\<dots> = is_in (rev ''ubuntu'') (rev (map lower_chr t))"
      by (simp add: rev_map)
    also have "\<dots> = is_in ''ubuntu'' (map lower_chr t)"
      by (simp only: is_in_rev)
    finally show ?thesis .
  qed
  have b: "is_in ''ubuntu'' (map lower_chr (dropWhile is_space s)) = is_in ''ubuntu'' (map lower_chr s)"
    by (rule is_in_dropWhile) (simp_all add: space_not_u)
  show ?thesis unfolding strip_def lower_def using a b by simp
qed

lemma lower_ubuntu: "lower ''ubuntu'' = ''ubuntu''"
  by code_simp

lemma map_eq_mid:
  assumes "map f s = b @ n @ a"
  shows "\<exists>b' m a'. s = b' @ m @ a' \<and> map f m = n"
proof -
  let ?m = "take (length n) (drop (length b) s)"
  have "map f ?m = take (length n) (drop (length b) (map f s))"
    by (simp add: take_map drop_map)
  then have "map f ?m = n" using assms by simp
  moreover have "s = take (length b) s @ ?m @ drop (length n) (drop (length b) s)"
    by (simp only: append_take_drop_id)
  ultimately show ?thesis by blast
qed

lemma is_in_map:
  "is_in n (map f s) = (\<exists>b m a. s = b @ m @ a \<and> map f m = n)"
proof
  assume "is_in n (map f s)"
  then obtain b a where "map f s = b @ n @ a"
    unfolding is_in_iff by blast
  then show "\<exists>b m a. s = b @ m @ a \<and> map f m = n"
    by (rule map_eq_mid)
next
  assume "\<exists>b m a. s = b @ m @ a \<and> map f m = n"
  then obtain b m a where "s = b @ m @ a" and "map f m = n" by blast
  then have "map f s = map f b @ n @ map f a" by simp
  then show "is_in n (map f s)"
    unfolding is_in_iff by blast
qed

lemma is_in_lower: "is_in ''ubuntu'' (lower s) = ci_occurs ''ubuntu'' s"
proof -
  have "is_in ''ubuntu'' (map lower_chr s)
      = (\<exists>b m a. s = b @ m @ a \<and> map lower_chr m = ''ubuntu'')"
    by (rule is_in_map)
  then show ?thesis
    by (simp only: ci_occurs_def lower_ubuntu) (simp only: lower_def)
qed

lemma ubuntu_in_clean: "is_in ''ubuntu'' (lower (strip s)) = ci_occurs ''ubuntu'' s"
  by (subst is_in_strip) (rule is_in_lower)


section \<open>The probes\<close>

text \<open>
  C6. The GuestDistribution probe \<open>is_ubuntu_installed\<close> returns satisfied if and only if
  the listing command \<open>wsl -l -v\<close> exits with code 0 and the name \<open>ubuntu\<close> occurs, up to
  the case of letters, as a substring of its output with the NUL bytes removed. It follows
  that a non-zero exit code, a missing executable and a timeout all give unsatisfied.
\<close>

theorem is_ubuntu_installed_iff:
  "is_ubuntu_installed P h =
     (\<exists>out. query P [''wsl'', ''-l'', ''-v''] (guest h) = Exited 0 out
            \<and> ci_occurs ''ubuntu'' (replace_nul out))"
  by (cases "query P [''wsl'', ''-l'', ''-v''] (guest h)")
     (simp_all add: is_ubuntu_installed_def run_query_def completion_def ubuntu_in_clean)

theorem is_ubuntu_installed_iff_witness:
  "\<exists>out. query (table_procs [([''wsl'', ''-l'', ''-v''], Exited 0 utf16_listing)])
             [''wsl'', ''-l'', ''-v''] (guest bare_host) = Exited 0 out
         \<and> ci_occurs ''ubuntu'' (replace_nul out)"
proof -
  have "is_ubuntu_installed (table_procs [([''wsl'', ''-l'', ''-v''], Exited 0 utf16_listing)])
          bare_host"
    by code_simp
  then show ?thesis
    using is_ubuntu_installed_iff
      [of "table_procs [([''wsl'', ''-l'', ''-v''], Exited 0 utf16_listing)]" bare_host]
    by simp
qed

section \<open>The shape of a full-install run\<close>

lemmas io_defs = bind_def return_def probe_def invoke_def input_def

lemma wsl_block:
  assumes "install_wsl_if_needed P s = (r, s')"
  shows "\<exists>evs. trace s' = trace s @ evs \<and> wsl_shape r evs"
  using assms unfolding install_wsl_if_needed_def io_defs wsl_shape_def
  by (auto split: sum.splits prod.splits list.splits if_splits)

lemma ubuntu_block:
  assumes "install_ubuntu_if_needed P s = (r, s')"
  shows "\<exists>evs. trace s' = trace s @ evs \<and> step_shape IsUbuntuInstalled InstallUbuntu r evs"
  using assms unfolding install_ubuntu_if_needed_def io_defs step_shape_def
  by (auto split: sum.splits prod.splits list.splits if_splits)

lemma setup_block:
  assumes "setup_ubuntu_environment_if_needed P s = (r, s')"
  shows "\<exists>evs. trace s' = trace s @ evs \<and> step_shape IsClaudeInstalled SetupUbuntuEnvironment r evs"
  using assms unfolding setup_ubuntu_environment_if_needed_def io_defs step_shape_def
  by (auto split: sum.splits prod.splits list.splits if_splits)

lemma claude_block:
  assumes "install_claude_code_if_needed P s = (r, s')"
  shows "\<exists>evs. trace s' = trace s @ evs \<and> step_shape IsClaudeInstalled InstallClaudeCode r evs"
  using assms unfolding install_claude_code_if_needed_def io_defs step_shape_def
  by (auto split: sum.splits prod.splits list.splits if_splits)

lemma menu_block:
  assumes "install_context_menu_if_needed s = (r, s')"
  shows "\<exists>evs. trace s' = trace s @ evs \<and> menu_shape r evs"
  using assms unfolding install_context_menu_if_needed_def io_defs menu_shape_def
  by (auto split: sum.splits prod.splits list.splits if_splits)


lemma chain_stop:
  assumes "shape r1 e1" and "r1 \<noteq> Inr True"
  shows "chain (shape # shapes) r1 e1"
  unfolding chain.simps(2)
  by (rule exI[of _ r1], rule exI[of _ e1], rule exI[of _ "[]"]) (simp add: assms)

lemma chain_cont:
  assumes "shape (Inr True) e1" and "chain shapes r e2"
  shows "chain (shape # shapes) r (e1 @ e2)"
  unfolding chain.simps(2)
  by (rule exI[of _ "Inr True"], rule exI[of _ e1], rule exI[of _ e2]) (simp add: assms)

lemma chain_last:
  assumes "shape r evs"
  shows "chain [shape] r evs"
proof (cases "r = Inr True")
  case True
  have "chain [shape] r (evs @ [])"
    by (rule chain_cont) (use assms True in simp_all)
  then show ?thesis by simp
next
  case False
  then show ?thesis using assms by (rule chain_stop[rotated])
qed

lemma and_then_chain:
  assumes block: "\<And>s r s'. m s = (r, s') \<Longrightarrow> \<exists>evs. trace s' = trace s @ evs \<and> shape r evs"
    and rest: "\<And>s r s'. k s = (r, s') \<Longrightarrow> \<exists>evs. trace s' = trace s @ evs \<and> chain shapes r evs"
    and run: "and_then m k s = (r, s')"
  shows "\<exists>evs. trace s' = trace s @ evs \<and> chain (shape # shapes) r evs"
proof -
  obtain r1 s1 where m: "m s = (r1, s1)" by (cases "m s")
  from block[OF m] obtain e1 where e1: "trace s1 = trace s @ e1" "shape r1 e1" by blast
  show ?thesis
  proof (cases "r1 = Inr True")
    case True
    then have "k s1 = (r, s')" using run m by (simp add: and_then_def bind_def)
    from rest[OF this] obtain e2 where e2: "trace s' = trace s1 @ e2" "chain shapes r e2" by blast
    have "trace s' = trace s @ (e1 @ e2)" using e1 e2 by simp
    moreover have "chain (shape # shapes) r (e1 @ e2)"
      using e1(2) e2(2) True by (simp only: chain_cont)
    ultimately show ?thesis by blast
  next
    case False
    then have eq: "r = r1 \<and> s' = s1" using run m
      by (cases r1) (auto simp: and_then_def bind_def return_def split: if_splits)
    have "chain (shape # shapes) r1 e1"
      using e1(2) False by (rule chain_stop)
    then show ?thesis using e1(1) eq by blast
  qed
qed

lemma menu_chain:
  assumes "install_context_menu_if_needed s = (r, s')"
  shows "\<exists>evs. trace s' = trace s @ evs \<and> chain [menu_shape] r evs"
  using menu_block[OF assms] chain_last by blast

lemma claude_chain:
  assumes "and_then (install_claude_code_if_needed P) install_context_menu_if_needed s = (r, s')"
  shows "\<exists>evs. trace s' = trace s @ evs
           \<and> chain [step_shape IsClaudeInstalled InstallClaudeCode, menu_shape] r evs"
  by (rule and_then_chain[where m = "install_claude_code_if_needed P"
        and k = install_context_menu_if_needed, OF _ _ assms])
     (erule claude_block, erule menu_chain)

lemma setup_chain:
  assumes "and_then (setup_ubuntu_environment_if_needed P)
             (and_then (install_claude_code_if_needed P) install_context_menu_if_needed) s
           = (r, s')"
  shows "\<exists>evs. trace s' = trace s @ evs
           \<and> chain [step_shape IsClaudeInstalled SetupUbuntuEnvironment,
                    step_shape IsClaudeInstalled InstallClaudeCode, menu_shape] r evs"
  by (rule and_then_chain[where m = "setup_ubuntu_environment_if_needed P", OF _ _ assms])
     (erule setup_block, erule claude_chain)

lemma ubuntu_chain:
  assumes "and_then (install_ubuntu_if_needed P)
             (and_then (setup_ubuntu_environment_if_needed P)
             (and_then (install_claude_code_if_needed P) install_context_menu_if_needed)) s
           = (r, s')"
  shows "\<exists>evs. trace s' = trace s @ evs
           \<and> chain [step_shape IsUbuntuInstalled InstallUbuntu,
                    step_shape IsClaudeInstalled SetupUbuntuEnvironment,
                    step_shape IsClaudeInstalled InstallClaudeCode, menu_shape] r evs"
  by (rule and_then_chain[where m = "install_ubuntu_if_needed P", OF _ _ assms])
     (erule ubuntu_block, erule setup_chain)

lemma install_full_chain:
  assumes "check_prerequisites (machine s)" and "install_full P s = (r, s')"
  shows "\<exists>evs. trace s' = trace s @ evs \<and> chain full_shapes r evs"
proof -
  have run: "and_then (install_wsl_if_needed P)
       (and_then (install_ubuntu_if_needed P)
       (and_then (setup_ubuntu_environment_if_needed P)
       (and_then (install_claude_code_if_needed P)
        install_context_menu_if_needed))) s = (r, s')"
    using assms by (simp add: install_full_def)
  show ?thesis
    unfolding full_shapes_def
    by (rule and_then_chain[where m = "install_wsl_if_needed P", OF _ _ run])
       (erule wsl_block, erule ubuntu_chain)
qed

lemma chain_step:
  assumes "chain (sh # rest) r evs"
  shows "(sh r evs \<and> r \<noteq> Inr True)
       \<or> (\<exists>e1 e2. evs = e1 @ e2 \<and> sh (Inr True) e1 \<and> chain rest r e2)"
proof -
  have "\<exists>r1 e1 e2. evs = e1 @ e2 \<and> sh r1 e1
          \<and> (if r1 = Inr True then chain rest r e2 else r = r1 \<and> e2 = [])"
    using assms by (simp only: chain.simps(2))
  then obtain r1 e1 e2 where ev: "evs = e1 @ e2" and sh: "sh r1 e1"
    and c: "if r1 = Inr True then chain rest r e2 else r = r1 \<and> e2 = []"
    by (elim exE conjE)
  show ?thesis
  proof (cases "r1 = Inr True")
    case True
    then have "chain rest r e2" using c by simp
    then have "evs = e1 @ e2 \<and> sh (Inr True) e1 \<and> chain rest r e2"
      using ev sh True by simp
    then have "\<exists>e1 e2. evs = e1 @ e2 \<and> sh (Inr True) e1 \<and> chain rest r e2"
      by (intro exI)
    then show ?thesis by (rule disjI2)
  next
    case False
    then have "r = r1 \<and> e2 = []" using c by simp
    then have "sh r evs \<and> r \<noteq> Inr True" using ev sh False by simp
    then show ?thesis by (rule disjI1)
  qed
qed


lemma chain5:
  assumes "chain [s1, s2, s3, s4, s5] r evs"
  obtains
    (stop1) "s1 r evs" "r \<noteq> Inr True"
  | (stop2) e1 e2 where "evs = e1 @ e2" "s1 (Inr True) e1" "s2 r e2" "r \<noteq> Inr True"
  | (stop3) e1 e2 e3 where "evs = e1 @ e2 @ e3" "s1 (Inr True) e1" "s2 (Inr True) e2"
      "s3 r e3" "r \<noteq> Inr True"
  | (stop4) e1 e2 e3 e4 where "evs = e1 @ e2 @ e3 @ e4" "s1 (Inr True) e1" "s2 (Inr True) e2"
      "s3 (Inr True) e3" "s4 r e4" "r \<noteq> Inr True"
  | (last) e1 e2 e3 e4 e5 where "evs = e1 @ e2 @ e3 @ e4 @ e5" "s1 (Inr True) e1"
      "s2 (Inr True) e2" "s3 (Inr True) e3" "s4 (Inr True) e4" "s5 r e5"
proof -
  from chain_step[OF assms] consider "s1 r evs \<and> r \<noteq> Inr True"
    | e1 t1 where "evs = e1 @ t1" "s1 (Inr True) e1" "chain [s2, s3, s4, s5] r t1"
    by blast
  then show thesis
  proof cases
    case 1
    then show ?thesis using stop1 by simp
  next
    case a: 2
    from chain_step[OF a(3)] consider "s2 r t1 \<and> r \<noteq> Inr True"
      | e2 t2 where "t1 = e2 @ t2" "s2 (Inr True) e2" "chain [s3, s4, s5] r t2"
      by blast
    then show ?thesis
    proof cases
      case 1
      then show ?thesis using stop2[of e1 t1] a by simp
    next
      case b: 2
      from chain_step[OF b(3)] consider "s3 r t2 \<and> r \<noteq> Inr True"
        | e3 t3 where "t2 = e3 @ t3" "s3 (Inr True) e3" "chain [s4, s5] r t3"
        by blast
      then show ?thesis
      proof cases
        case 1
        then show ?thesis using stop3[of e1 e2 t2] a b by simp
      next
        case c: 2
        from chain_step[OF c(3)] consider "s4 r t3 \<and> r \<noteq> Inr True"
          | e4 t4 where "t3 = e4 @ t4" "s4 (Inr True) e4" "chain [s5] r t4"
          by blast
        then show ?thesis
        proof cases
          case 1
          then show ?thesis using stop4[of e1 e2 e3 t3] a b c by simp
        next
          case d: 2
          from chain_step[OF d(3)] consider "s5 r t4 \<and> r \<noteq> Inr True"
            | e5 t5 where "t4 = e5 @ t5" "s5 (Inr True) e5" "chain [] r t5"
            by blast
          then show ?thesis
          proof cases
            case 1
            then show ?thesis using last[of e1 e2 e3 e4 t4] a b c d by simp
          next
            case e: 2
            then have "r = Inr True" "t5 = []" by simp_all
            then show ?thesis using last[of e1 e2 e3 e4 t4] a b c d e by simp
          qed
        qed
      qed
    qed
  qed
qed

lemma reached_append: "reached (e1 @ e2) st = (reached e1 st \<or> reached e2 st)"
  by (auto simp: reached_def)

lemma fails_append: "fails (e1 @ e2) a = (fails e1 a \<or> fails e2 a)"
  by (auto simp: fails_def)

lemma within_not_reached: "within st' e \<Longrightarrow> st \<noteq> st' \<Longrightarrow> \<not> reached e st"
  by (auto simp: within_def reached_def)

lemma called_reached: "Called c b \<in> set e \<Longrightarrow> reached e (stage_of c)"
  by (force simp: reached_def)

lemma stage_probe_of: "stage_of (probe_of st) = st"
  by (cases st) simp_all

lemma stage_applies_of: "a \<in> set (applies_of st) \<Longrightarrow> stage_of a = st"
  by (cases st) auto

lemma settled_right: "\<not> reached e2 st \<Longrightarrow> settled (e1 @ e2) st = settled e1 st"
  using called_reached[of _ _ e2] stage_probe_of[of st] stage_applies_of[of _ st]
  unfolding settled_def by (metis Un_iff set_append)

lemma settled_left: "\<not> reached e1 st \<Longrightarrow> settled (e1 @ e2) st = settled e2 st"
  using called_reached[of _ _ e1] stage_probe_of[of st] stage_applies_of[of _ st]
  unfolding settled_def by (metis Un_iff set_append)

lemma settled_both: "settled e1 st \<Longrightarrow> settled e2 st \<Longrightarrow> settled (e1 @ e2) st"
  unfolding settled_def by auto

lemma wsl_within: "wsl_shape r e \<Longrightarrow> within VirtualizationLayer e"
  unfolding wsl_shape_def within_def by auto

lemma wsl_cont: "wsl_shape (Inr True) e \<Longrightarrow> settled e VirtualizationLayer \<and> \<not> fails e a"
  unfolding wsl_shape_def settled_def fails_def is_apply_def by auto

lemma wsl_stop:
  "wsl_shape r e \<Longrightarrow> fails e a \<Longrightarrow> r = Inr False \<and> last e = Called a False \<and> a = InstallWsl"
  unfolding wsl_shape_def fails_def is_apply_def by auto

lemma step_within: "step_shape p a0 r e \<Longrightarrow> stage_of p = st \<Longrightarrow> stage_of a0 = st \<Longrightarrow> within st e"
  unfolding step_shape_def within_def by auto

lemma step_cont:
  "step_shape p a0 (Inr True) e \<Longrightarrow> \<not> is_apply p \<Longrightarrow> (Called p True \<in> set e \<or> Called a0 True \<in> set e) \<and> \<not> fails e a"
  unfolding step_shape_def fails_def by auto

lemma step_stop:
  "step_shape p a0 r e \<Longrightarrow> \<not> is_apply p \<Longrightarrow> fails e a \<Longrightarrow> r = Inr False \<and> last e = Called a False \<and> a = a0"
  unfolding step_shape_def fails_def by auto

lemma menu_within: "menu_shape r e \<Longrightarrow> within ShellIntegration e"
  unfolding menu_shape_def within_def by auto

lemma menu_stop:
  "menu_shape r e \<Longrightarrow> fails e a \<Longrightarrow> a = InstallContextMenu \<and>
     (Called IsInstalled False \<in> set e \<longrightarrow> r = Inr False \<and> last e = Called a False)"
  unfolding menu_shape_def fails_def is_apply_def by auto

lemma fails_nonempty: "fails e a \<Longrightarrow> e \<noteq> []"
  unfolding fails_def by auto

lemma cont_settled:
  assumes "Called (probe_of st) True \<in> set e \<or> Called a0 True \<in> set e"
    and "a0 \<in> set (applies_of st)" and "\<And>a. \<not> fails e a"
  shows "settled e st"
proof -
  have "is_apply a" if "a \<in> set (applies_of st)" for a
    using that by (cases st) (auto simp: is_apply_def)
  then have "\<forall>a \<in> set (applies_of st). Called a False \<notin> set e"
    using assms(3) unfolding fails_def by blast
  then show ?thesis using assms(1,2) unfolding settled_def by blast
qed

lemma chain_failure:
  assumes ch: "chain full_shapes r evs" and f: "fails evs a"
    and p: "Called (probe_of (stage_of a)) False \<in> set evs"
  shows "r = Inr False \<and> last evs = Called a False
       \<and> (\<forall>st. position (stage_of a) < position st \<longrightarrow> \<not> reached evs st)
       \<and> (\<forall>st. position st < position (stage_of a) \<longrightarrow> settled evs st)"
  using ch unfolding full_shapes_def
proof (cases rule: chain5)
  case stop1
  have w: "within VirtualizationLayer evs" using stop1(1) by (rule wsl_within)
  have a: "r = Inr False" "last evs = Called a False" "a = InstallWsl"
    using wsl_stop[OF stop1(1) f] by simp_all
  have "\<not> reached evs st" if "0 < position st" for st
    using that within_not_reached[OF w, of st] by (cases st) simp_all
  then show ?thesis using a by simp
next
  case (stop2 e1 e2)
  have w: "within VirtualizationLayer e1" "within GuestDistribution e2"
    using stop2 wsl_within step_within[of IsUbuntuInstalled InstallUbuntu r e2] by simp_all
  have c1: "settled e1 VirtualizationLayer" "\<not> fails e1 a"
    using wsl_cont[OF stop2(2)] by simp_all
  then have f2: "fails e2 a" using f stop2(1) by (simp add: fails_append)
  have a: "r = Inr False" "last e2 = Called a False" "a = InstallUbuntu"
    using step_stop[OF stop2(3) _ f2] by (simp_all add: is_apply_def)
  have l: "last evs = last e2" using stop2(1) fails_nonempty[OF f2] by simp
  have nr: "\<not> reached evs st" if "1 < position st" for st
    using that within_not_reached[OF w(1), of st] within_not_reached[OF w(2), of st] stop2(1)
    by (cases st) (simp_all add: reached_append)
  have "settled evs VirtualizationLayer"
    using c1(1) within_not_reached[OF w(2), of VirtualizationLayer] stop2(1)
    by (simp add: settled_right)
  then have s: "settled evs st" if "position st < 1" for st
    using that by (cases st) simp_all
  show ?thesis using a l nr s by simp
next
  case (stop3 e1 e2 e3)
  have w: "within VirtualizationLayer e1" "within GuestDistribution e2"
    "within ApplicationRuntimeApp e3"
    using stop3 wsl_within step_within[of IsUbuntuInstalled InstallUbuntu "Inr True" e2]
      step_within[of IsClaudeInstalled SetupUbuntuEnvironment r e3] by simp_all
  have c1: "settled e1 VirtualizationLayer" "\<not> fails e1 a"
    using wsl_cont[OF stop3(2)] by simp_all
  have k2: "Called IsUbuntuInstalled True \<in> set e2 \<or> Called InstallUbuntu True \<in> set e2"
    and n2: "\<not> fails e2 b" for b
    using step_cont[OF stop3(3), of b] by (simp_all add: is_apply_def)
  have c2: "settled e2 GuestDistribution"
    by (rule cont_settled[where ?a0.0 = InstallUbuntu]) (use k2 n2 in simp_all)
  have f3: "fails e3 a" using f stop3(1) c1(2) n2 by (simp add: fails_append)
  have a: "r = Inr False" "last e3 = Called a False" "a = SetupUbuntuEnvironment"
    using step_stop[OF stop3(4) _ f3] by (simp_all add: is_apply_def)
  have l: "last evs = last e3" using stop3(1) fails_nonempty[OF f3] by simp
  have nr: "\<not> reached evs st" if "2 < position st" for st
    using that within_not_reached[OF w(1), of st] within_not_reached[OF w(2), of st]
      within_not_reached[OF w(3), of st] stop3(1)
    by (cases st) (simp_all add: reached_append)
  have s1: "settled evs VirtualizationLayer"
    using c1(1) within_not_reached[OF w(2), of VirtualizationLayer]
      within_not_reached[OF w(3), of VirtualizationLayer] stop3(1)
    by (simp add: settled_right reached_append)
  have s2: "settled evs GuestDistribution"
    using c2 within_not_reached[OF w(1), of GuestDistribution]
      within_not_reached[OF w(3), of GuestDistribution] stop3(1)
    by (simp add: settled_right settled_left)
  have s: "settled evs st" if "position st < 2" for st
    using that s1 s2 by (cases st) simp_all
  show ?thesis using a l nr s by simp
next
  case (stop4 e1 e2 e3 e4)
  have w: "within VirtualizationLayer e1" "within GuestDistribution e2"
    "within ApplicationRuntimeApp e3" "within ApplicationRuntimeApp e4"
    using stop4 wsl_within step_within[of IsUbuntuInstalled InstallUbuntu "Inr True" e2]
      step_within[of IsClaudeInstalled SetupUbuntuEnvironment "Inr True" e3]
      step_within[of IsClaudeInstalled InstallClaudeCode r e4] by simp_all
  have c1: "settled e1 VirtualizationLayer" "\<not> fails e1 a"
    using wsl_cont[OF stop4(2)] by simp_all
  have k2: "Called IsUbuntuInstalled True \<in> set e2 \<or> Called InstallUbuntu True \<in> set e2"
    and n2: "\<not> fails e2 b" for b
    using step_cont[OF stop4(3), of b] by (simp_all add: is_apply_def)
  have c2: "settled e2 GuestDistribution"
    by (rule cont_settled[where ?a0.0 = InstallUbuntu]) (use k2 n2 in simp_all)
  have n3: "\<not> fails e3 b" for b
    using step_cont[OF stop4(4), of b] by (simp_all add: is_apply_def)
  have f4: "fails e4 a" using f stop4(1) c1(2) n2 n3 by (simp add: fails_append)
  have a: "r = Inr False" "last e4 = Called a False" "a = InstallClaudeCode"
    using step_stop[OF stop4(5) _ f4] by (simp_all add: is_apply_def)
  have l: "last evs = last e4" using stop4(1) fails_nonempty[OF f4] by simp
  have nr: "\<not> reached evs st" if "2 < position st" for st
    using that within_not_reached[OF w(1), of st] within_not_reached[OF w(2), of st]
      within_not_reached[OF w(3), of st] within_not_reached[OF w(4), of st] stop4(1)
    by (cases st) (simp_all add: reached_append)
  have s1: "settled evs VirtualizationLayer"
    using c1(1) within_not_reached[OF w(2), of VirtualizationLayer]
      within_not_reached[OF w(3), of VirtualizationLayer]
      within_not_reached[OF w(4), of VirtualizationLayer] stop4(1)
    by (simp add: settled_right reached_append)
  have s2: "settled evs GuestDistribution"
    using c2 within_not_reached[OF w(1), of GuestDistribution]
      within_not_reached[OF w(3), of GuestDistribution]
      within_not_reached[OF w(4), of GuestDistribution] stop4(1)
    by (simp add: settled_right settled_left reached_append)
  have s: "settled evs st" if "position st < 2" for st
    using that s1 s2 by (cases st) simp_all
  show ?thesis using a l nr s by simp
next
  case (last e1 e2 e3 e4 e5)
  have w: "within VirtualizationLayer e1" "within GuestDistribution e2"
    "within ApplicationRuntimeApp e3" "within ApplicationRuntimeApp e4"
    "within ShellIntegration e5"
    using last wsl_within menu_within
      step_within[of IsUbuntuInstalled InstallUbuntu "Inr True" e2]
      step_within[of IsClaudeInstalled SetupUbuntuEnvironment "Inr True" e3]
      step_within[of IsClaudeInstalled InstallClaudeCode "Inr True" e4] by simp_all
  have c1: "settled e1 VirtualizationLayer" "\<not> fails e1 a"
    using wsl_cont[OF last(2)] by simp_all
  have k2: "Called IsUbuntuInstalled True \<in> set e2 \<or> Called InstallUbuntu True \<in> set e2"
    and n2: "\<not> fails e2 b" for b
    using step_cont[OF last(3), of b] by (simp_all add: is_apply_def)
  have c2: "settled e2 GuestDistribution"
    by (rule cont_settled[where ?a0.0 = InstallUbuntu]) (use k2 n2 in simp_all)
  have k3: "Called IsClaudeInstalled True \<in> set e3 \<or> Called SetupUbuntuEnvironment True \<in> set e3"
    and n3: "\<not> fails e3 b" for b
    using step_cont[OF last(4), of b] by (simp_all add: is_apply_def)
  have c3: "settled e3 ApplicationRuntimeApp"
    by (rule cont_settled[where ?a0.0 = SetupUbuntuEnvironment]) (use k3 n3 in simp_all)
  have k4: "Called IsClaudeInstalled True \<in> set e4 \<or> Called InstallClaudeCode True \<in> set e4"
    and n4: "\<not> fails e4 b" for b
    using step_cont[OF last(5), of b] by (simp_all add: is_apply_def)
  have c4: "settled e4 ApplicationRuntimeApp"
    by (rule cont_settled[where ?a0.0 = InstallClaudeCode]) (use k4 n4 in simp_all)
  have f5: "fails e5 a" using f last(1) c1(2) n2 n3 n4 by (simp add: fails_append)
  have am: "a = InstallContextMenu" using menu_stop[OF last(6) f5] by simp
  have "Called IsInstalled False \<in> set e5"
  proof (rule ccontr)
    assume "Called IsInstalled False \<notin> set e5"
    then have "Called IsInstalled False \<in> set (e1 @ e2 @ e3 @ e4)"
      using p am last(1) by auto
    then have "reached (e1 @ e2 @ e3 @ e4) ShellIntegration"
      using called_reached[of IsInstalled False] by fastforce
    then show False
      using within_not_reached[OF w(1), of ShellIntegration]
        within_not_reached[OF w(2), of ShellIntegration]
        within_not_reached[OF w(3), of ShellIntegration]
        within_not_reached[OF w(4), of ShellIntegration]
      by (simp add: reached_append)
  qed
  then have a: "r = Inr False" "last e5 = Called a False"
    using menu_stop[OF last(6) f5] by simp_all
  have l: "last evs = last e5" using last(1) fails_nonempty[OF f5] by simp
  have nr: "\<not> reached evs st" if "3 < position st" for st
    using that by (cases st) simp_all
  have s1: "settled evs VirtualizationLayer"
    using c1(1) within_not_reached[OF w(2), of VirtualizationLayer]
      within_not_reached[OF w(3), of VirtualizationLayer]
      within_not_reached[OF w(4), of VirtualizationLayer]
      within_not_reached[OF w(5), of VirtualizationLayer] last(1)
    by (simp add: settled_right reached_append)
  have s2: "settled evs GuestDistribution"
    using c2 within_not_reached[OF w(1), of GuestDistribution]
      within_not_reached[OF w(3), of GuestDistribution]
      within_not_reached[OF w(4), of GuestDistribution]
      within_not_reached[OF w(5), of GuestDistribution] last(1)
    by (simp add: settled_right settled_left reached_append)
  have n5: "\<not> reached e5 ApplicationRuntimeApp"
    using within_not_reached[OF w(5), of ApplicationRuntimeApp] by simp
  have n2': "\<not> reached e2 ApplicationRuntimeApp"
    using within_not_reached[OF w(2), of ApplicationRuntimeApp] by simp
  have n1': "\<not> reached e1 ApplicationRuntimeApp"
    using within_not_reached[OF w(1), of ApplicationRuntimeApp] by simp
  have "settled (e3 @ e4) ApplicationRuntimeApp" using c3 c4 by (rule settled_both)
  then have "settled ((e3 @ e4) @ e5) ApplicationRuntimeApp"
    by (simp only: settled_right[OF n5])
  then have "settled (e2 @ (e3 @ e4) @ e5) ApplicationRuntimeApp"
    by (simp only: settled_left[OF n2'])
  then have "settled (e1 @ e2 @ (e3 @ e4) @ e5) ApplicationRuntimeApp"
    by (simp only: settled_left[OF n1'])
  then have s3: "settled evs ApplicationRuntimeApp" using last(1) by simp
  have s: "settled evs st" if "position st < 3" for st
    using that s1 s2 s3 by (cases st) simp_all
  show ?thesis using a l nr s am by simp
qed

section \<open>Full install: a failed apply\<close>

text \<open>
  C1, as the code has it. In a full-install run, if the probe of some stage returned
  unsatisfied and an apply of that stage returned failure, then \<open>install_full\<close> returns
  \<open>False\<close> at that point: the failed apply is the last thing the run does, no stage at a
  later position is probed or applied, and every stage at an earlier position is settled
  on its own (found satisfied, or applied with success). The run yields this one truth
  value; it keeps no per-stage report.
\<close>

theorem install_full_failure_ends_run:
  assumes run: "install_full P (start h answers) = (r, s')"
    and "is_apply a" and "Called a False \<in> set (trace s')"
    and "Called (probe_of (stage_of a)) False \<in> set (trace s')"
  shows "r = Inr False \<and> last (trace s') = Called a False
       \<and> (\<forall>st. position (stage_of a) < position st \<longrightarrow> \<not> reached (trace s') st)
       \<and> (\<forall>st. position st < position (stage_of a) \<longrightarrow> settled (trace s') st)"
proof (cases "check_prerequisites h")
  case False
  then have "s' = start h answers" using run by (simp add: install_full_def start_def)
  then have "trace s' = []" by (simp add: start_def)
  then show ?thesis using assms(3) by simp
next
  case True
  then have "check_prerequisites (machine (start h answers))" by (simp add: start_def)
  from install_full_chain[OF this run] obtain evs
    where "trace s' = trace (start h answers) @ evs" and ch: "chain full_shapes r evs"
    by blast
  then have tr: "trace s' = evs" by (simp add: start_def)
  have "fails evs a" using assms(2,3) tr by (simp add: fails_def)
  from chain_failure[OF ch this] assms(4) tr show ?thesis by simp
qed

theorem install_full_failure_ends_run_witness:
  "fst (install_full ubuntu_install_fails (start bare_host [])) = Inr False
   \<and> last (trace (snd (install_full ubuntu_install_fails (start bare_host []))))
       = Called InstallUbuntu False
   \<and> \<not> reached (trace (snd (install_full ubuntu_install_fails (start bare_host []))))
         ApplicationRuntimeApp
   \<and> \<not> reached (trace (snd (install_full ubuntu_install_fails (start bare_host []))))
         ShellIntegration
   \<and> settled (trace (snd (install_full ubuntu_install_fails (start bare_host []))))
         VirtualizationLayer"
proof -
  let ?run = "install_full ubuntu_install_fails (start bare_host [])"
  have tr: "trace (snd ?run)
            = [Called IsWslInstalled True, Called IsUbuntuInstalled False,
               Called InstallUbuntu False]"
    by code_simp
  have 1: "?run = (fst ?run, snd ?run)" by simp
  have 2: "is_apply InstallUbuntu" by (simp add: is_apply_def)
  have 3: "Called InstallUbuntu False \<in> set (trace (snd ?run))" by (simp add: tr)
  have 4: "Called (probe_of (stage_of InstallUbuntu)) False \<in> set (trace (snd ?run))"
    by (simp add: tr)
  from install_full_failure_ends_run[OF 1 2 3 4] show ?thesis by simp
qed

text \<open>
  C1 as stated fails: when the WSL install fails, the run returns \<open>False\<close> right after
  it, and nothing is recorded for the three later stages.
\<close>

theorem full_report_counterexample:
  "fst (install_full wsl_install_fails (start bare_host [])) = Inr False
   \<and> trace (snd (install_full wsl_install_fails (start bare_host [])))
       = [Called IsWslInstalled False, Called InstallWsl False]
   \<and> \<not> reached (trace (snd (install_full wsl_install_fails (start bare_host []))))
         GuestDistribution
   \<and> \<not> reached (trace (snd (install_full wsl_install_fails (start bare_host []))))
         ApplicationRuntimeApp
   \<and> \<not> reached (trace (snd (install_full wsl_install_fails (start bare_host []))))
         ShellIntegration"
  by code_simp

section \<open>Full install: when an install is called\<close>

lemma times_append: "times c (e1 @ e2) = times c e1 + times c e2"
  by (simp add: times_def)

lemma warranted_append: "warranted a e1 \<or> warranted a e2 \<Longrightarrow> warranted a (e1 @ e2)"
  unfolding warranted_def update_confirmed_def by auto

lemma chain_local:
  assumes "\<And>sh r e. sh \<in> set shapes \<Longrightarrow> sh r e \<Longrightarrow> Q e"
    and "Q []" and "\<And>e1 e2. Q e1 \<Longrightarrow> Q e2 \<Longrightarrow> Q (e1 @ e2)"
    and "chain shapes r evs"
  shows "Q evs"
  using assms(1,4)
proof (induction shapes arbitrary: evs)
  case Nil
  then show ?case using assms(2) by simp
next
  case (Cons sh rest)
  from chain_step[OF Cons.prems(2)] consider "sh r evs \<and> r \<noteq> Inr True"
    | e1 e2 where "evs = e1 @ e2" "sh (Inr True) e1" "chain rest r e2"
    by blast
  then show ?case
  proof cases
    case 1
    then show ?thesis using Cons.prems(1)[of sh r evs] by simp
  next
    case 2
    have "Q e1" using Cons.prems(1)[of sh "Inr True" e1] 2(2) by simp
    moreover have "Q e2"
    proof (rule Cons.IH[OF _ 2(3)])
      show "Q e" if "sh' \<in> set rest" "sh' r' e" for sh' r' e
        using that Cons.prems(1)[of sh' r' e] by simp
    qed
    ultimately show ?thesis using assms(3) 2(1) by simp
  qed
qed

lemma wsl_warranted: "wsl_shape r e \<Longrightarrow> is_apply a \<Longrightarrow> calls_warranted a e"
  unfolding wsl_shape_def calls_warranted_def warranted_def is_apply_def by auto

lemma step_warranted:
  "step_shape (probe_of (stage_of a0)) a0 r e \<Longrightarrow> is_apply a \<Longrightarrow> calls_warranted a e"
  unfolding step_shape_def calls_warranted_def warranted_def is_apply_def
  by (cases a0) auto

lemma menu_warranted: "menu_shape r e \<Longrightarrow> is_apply a \<Longrightarrow> calls_warranted a e"
  unfolding menu_shape_def calls_warranted_def warranted_def is_apply_def update_confirmed_def
  by auto

lemma calls_warranted_append:
  "calls_warranted a e1 \<Longrightarrow> calls_warranted a e2 \<Longrightarrow> calls_warranted a (e1 @ e2)"
  unfolding calls_warranted_def using warranted_append[of a e1 e2] by auto

lemma chain_warranted:
  assumes "chain full_shapes r evs" and "is_apply a"
  shows "calls_warranted a evs"
proof (rule chain_local[OF _ _ _ assms(1)])
  show "calls_warranted a []" by (simp add: calls_warranted_def)
  show "calls_warranted a (e1 @ e2)" if "calls_warranted a e1" "calls_warranted a e2" for e1 e2
    using that by (rule calls_warranted_append)
  show "calls_warranted a e" if "sh \<in> set full_shapes" "sh r e" for sh r e
  proof -
    from that(1) consider "sh = wsl_shape"
      | "sh = step_shape (probe_of (stage_of InstallUbuntu)) InstallUbuntu"
      | "sh = step_shape (probe_of (stage_of SetupUbuntuEnvironment)) SetupUbuntuEnvironment"
      | "sh = step_shape (probe_of (stage_of InstallClaudeCode)) InstallClaudeCode"
      | "sh = menu_shape"
      unfolding full_shapes_def by auto
    then show ?thesis
      using that(2) assms(2) wsl_warranted step_warranted menu_warranted
      by cases blast+
  qed
qed

lemma wsl_times: "wsl_shape r e \<Longrightarrow> is_apply a \<Longrightarrow> times a e \<le> (if a = InstallWsl then 1 else 0)"
  unfolding wsl_shape_def times_def is_apply_def by auto

lemma step_times:
  "step_shape p a0 r e \<Longrightarrow> \<not> is_apply p \<Longrightarrow> is_apply a \<Longrightarrow> times a e \<le> (if a = a0 then 1 else 0)"
  unfolding step_shape_def times_def by auto

lemma menu_times:
  "menu_shape r e \<Longrightarrow> is_apply a \<Longrightarrow> times a e \<le> (if a = InstallContextMenu then 1 else 0)"
  unfolding menu_shape_def times_def is_apply_def by auto

lemma chain_times:
  assumes ch: "chain full_shapes r evs" and a: "is_apply a"
  shows "times a evs \<le> 1"
  using ch unfolding full_shapes_def
proof (cases rule: chain5)
  case stop1
  then show ?thesis using wsl_times[OF _ a, of r evs] by (simp split: if_splits)
next
  case (stop2 e1 e2)
  then show ?thesis
    using wsl_times[OF _ a, of "Inr True" e1]
      step_times[OF _ _ a, of IsUbuntuInstalled InstallUbuntu r e2]
    by (simp add: times_append is_apply_def split: if_splits)
next
  case (stop3 e1 e2 e3)
  then show ?thesis
    using wsl_times[OF _ a, of "Inr True" e1]
      step_times[OF _ _ a, of IsUbuntuInstalled InstallUbuntu "Inr True" e2]
      step_times[OF _ _ a, of IsClaudeInstalled SetupUbuntuEnvironment r e3]
    by (simp add: times_append is_apply_def split: if_splits)
next
  case (stop4 e1 e2 e3 e4)
  then show ?thesis
    using wsl_times[OF _ a, of "Inr True" e1]
      step_times[OF _ _ a, of IsUbuntuInstalled InstallUbuntu "Inr True" e2]
      step_times[OF _ _ a, of IsClaudeInstalled SetupUbuntuEnvironment "Inr True" e3]
      step_times[OF _ _ a, of IsClaudeInstalled InstallClaudeCode r e4]
    by (simp add: times_append is_apply_def split: if_splits)
next
  case (last e1 e2 e3 e4 e5)
  then show ?thesis
    using wsl_times[OF _ a, of "Inr True" e1]
      step_times[OF _ _ a, of IsUbuntuInstalled InstallUbuntu "Inr True" e2]
      step_times[OF _ _ a, of IsClaudeInstalled SetupUbuntuEnvironment "Inr True" e3]
      step_times[OF _ _ a, of IsClaudeInstalled InstallClaudeCode "Inr True" e4]
      menu_times[OF _ a, of r e5]
    by (simp add: times_append is_apply_def split: if_splits)
qed

text \<open>
  C2, as the code has it. In a full-install run every install method is called at most
  once, and only when warranted: the probe of its stage returned unsatisfied in this run
  or, for the context-menu install, the probe returned satisfied and the operator
  answered yes to the update prompt.
\<close>

theorem install_full_applies_once:
  assumes run: "install_full P (start h answers) = (r, s')" and a: "is_apply a"
  shows "times a (trace s') \<le> 1
       \<and> ((\<exists>b. Called a b \<in> set (trace s')) \<longrightarrow> warranted a (trace s'))"
proof (cases "check_prerequisites h")
  case False
  then have "s' = start h answers" using run by (simp add: install_full_def start_def)
  then have "trace s' = []" by (simp add: start_def)
  then show ?thesis by (simp add: times_def)
next
  case True
  then have "check_prerequisites (machine (start h answers))" by (simp add: start_def)
  from install_full_chain[OF this run] obtain evs
    where "trace s' = trace (start h answers) @ evs" and ch: "chain full_shapes r evs"
    by blast
  then have tr: "trace s' = evs" by (simp add: start_def)
  show ?thesis
    using chain_times[OF ch a] chain_warranted[OF ch a] tr
    by (simp add: calls_warranted_def)
qed

theorem install_full_applies_once_witness:
  "times InstallContextMenu (trace (snd (install_full all_installed (start menu_host [''y''])))) \<le> 1
   \<and> warranted InstallContextMenu
       (trace (snd (install_full all_installed (start menu_host [''y'']))))"
proof -
  let ?run = "install_full all_installed (start menu_host [''y''])"
  have 1: "?run = (fst ?run, snd ?run)" by simp
  have 2: "is_apply InstallContextMenu" by (simp add: is_apply_def)
  have 3: "\<exists>b. Called InstallContextMenu b \<in> set (trace (snd ?run))"
  proof
    show "Called InstallContextMenu True \<in> set (trace (snd ?run))" by code_simp
  qed
  from install_full_applies_once[OF 1 2] 3 show ?thesis by blast
qed

text \<open>
  C2 as stated fails: on a host with everything installed, an operator who answers
  \<open>y\<close> to the update prompt has the context menu installed again although its probe
  returned satisfied.
\<close>

theorem apply_after_satisfied_probe_counterexample:
  "Called IsInstalled True
     \<in> set (trace (snd (install_full all_installed (start menu_host [''y'']))))
   \<and> Called IsInstalled False
     \<notin> set (trace (snd (install_full all_installed (start menu_host [''y'']))))
   \<and> Called InstallContextMenu True
     \<in> set (trace (snd (install_full all_installed (start menu_host [''y'']))))"
  by code_simp

section \<open>The modes of the installer\<close>





lemma grows_return: "grows (return a)"
  by (simp add: grows_def return_def)































lemma key_path_background:
  "key_path background_key = [''Directory'', ''Background'', ''shell'', ''OpenInClaude'']"
  by code_simp























text \<open>
  C4, as the code has it. When the elevation check fails, each mutating mode (full
  install, context menu only, uninstall) returns \<open>False\<close> and the process exits with
  status 1; the session is left as it was: no probe, install or uninstall is called, no
  prompt is read and the host is unchanged.
\<close>

theorem permission_gate:
  assumes "\<not> is_admin h"
  shows "install_full P (start h answers) = (Inr False, start h answers)
       \<and> install_context_menu_only P (start h answers) = (Inr False, start h answers)
       \<and> uninstall (start h answers) = (Inr False, start h answers)
       \<and> (\<not> arg_status a \<and> \<not> arg_gui a \<and> \<not> (no_arguments a \<and> g)
            \<longrightarrow> main P g a (start h answers) = (Exit 1, start h answers))"
  using assms
  by (simp add: install_full_def install_context_menu_only_def uninstall_def
      check_prerequisites_def start_def main_def sys_exit_def)

theorem permission_gate_witness:
  "install_full wsl_install_fails (start unelevated_host [''y''])
     = (Inr False, start unelevated_host [''y''])
   \<and> install_context_menu_only wsl_install_fails (start unelevated_host [''y''])
     = (Inr False, start unelevated_host [''y''])
   \<and> uninstall (start unelevated_host [''y'']) = (Inr False, start unelevated_host [''y''])
   \<and> main wsl_install_fails False (only_flag ''--uninstall'') (start unelevated_host [''y''])
     = (Exit 1, start unelevated_host [''y''])"
proof -
  have 1: "\<not> is_admin unelevated_host" by code_simp
  have 2: "\<not> arg_status (only_flag ''--uninstall'') \<and> \<not> arg_gui (only_flag ''--uninstall'')
           \<and> \<not> (no_arguments (only_flag ''--uninstall'') \<and> False)"
    by code_simp
  from permission_gate[OF 1, of wsl_install_fails "[''y'']" "only_flag ''--uninstall''" False] 2
  show ?thesis by simp
qed

text \<open>
  C4 as stated fails in its last part: there is no outcome of its own for a denied
  permission. An unelevated run and an elevated run whose WSL install fails give the same
  result, \<open>False\<close> and exit status 1.
\<close>

theorem permission_denied_not_distinct_counterexample:
  "\<not> is_admin unelevated_host
   \<and> is_admin bare_host
   \<and> fst (install_full wsl_install_fails (start unelevated_host [])) = Inr False
   \<and> fst (install_full wsl_install_fails (start bare_host [])) = Inr False
   \<and> fst (main wsl_install_fails False (only_flag ''--console'') (start unelevated_host []))
     = Exit 1
   \<and> fst (main wsl_install_fails False (only_flag ''--console'') (start bare_host []))
     = Exit 1"
  by code_simp

text \<open>
  Where the WSL probe returns a value, the status mode only reads: it probes the four
  stages in order, runs nothing but read-only queries, leaves the host and the input as
  they were, and the process exits with status 0 whatever the probes return.
\<close>

lemma show_status_reads_only:
  assumes "is_wsl_installed P h = Inr w" and "arg_status a"
  shows "main P g a (start h answers) =
           (Exit 0,
            \<lparr>machine = h, stdin = answers,
             trace = [Called IsWslInstalled w, Called IsUbuntuInstalled (is_ubuntu_installed P h)]
                   @ (if is_ubuntu_installed P h then [] else [Ran [''wsl'', ''-l'', ''-v'']])
                   @ [Called IsClaudeInstalled (is_claude_installed P h),
                      Called IsInstalled (is_installed h)]\<rparr>)
       \<and> (\<forall>e \<in> set (trace (snd (main P g a (start h answers)))). reads_only e)"
  using assms
  by (simp add: main_def no_arguments_def show_status_def debug_listing_def io_defs start_def
      is_probe_def split: sum.splits)

text \<open>
  C5. The status mode is to be read-only and \<open>--status\<close> is to exit with status 0
  whatever the probes find. The code misses the exit status on a host where the queries
  do not finish within the timeout: \<open>is_ubuntu_installed\<close> and
  \<open>is_claude_installed\<close> catch every exception and return \<open>False\<close>, but
  \<open>is_wsl_installed\<close> catches only \<open>FileNotFoundError\<close>. Its \<open>TimeoutExpired\<close>
  leaves \<open>show_status\<close> after the first probe and reaches the handler of \<open>main\<close>,
  and the process exits with status 1.
\<close>

theorem status_exit_on_timeout:
  "is_ubuntu_installed wsl_hangs bare_host = False
   \<and> is_claude_installed wsl_hangs bare_host = False
   \<and> is_wsl_installed wsl_hangs bare_host = Inl TimeoutExpired
   \<and> main wsl_hangs False (only_flag ''--status'') (start bare_host [])
     = (Exit 1, \<lparr>machine = bare_host, stdin = [],
                  trace = [Raised IsWslInstalled TimeoutExpired]\<rparr>)"
  by (simp add: wsl_hangs_def table_procs_def is_ubuntu_installed_def is_claude_installed_def
      is_wsl_installed_def run_query_def completion_def main_def no_arguments_def only_flag_def
      show_status_def io_defs start_def)

text \<open>
  C8, as the code has it. On a host that passes the prerequisite check and whose
  ShellIntegration probe reports unsatisfied, uninstall calls the probe and nothing else,
  leaves the host unchanged and returns \<open>True\<close>; \<open>--uninstall\<close> exits with status 0.
\<close>

theorem uninstall_absent:
  assumes "check_prerequisites h" and "\<not> is_installed h"
  shows "uninstall (start h answers)
           = (Inr True, \<lparr>machine = h, stdin = answers, trace = [Called IsInstalled False]\<rparr>)
       \<and> (arg_uninstall a \<and> \<not> arg_status a
            \<longrightarrow> main P g a (start h answers)
                = (Exit 0, \<lparr>machine = h, stdin = answers, trace = [Called IsInstalled False]\<rparr>))"
  using assms
  by (simp add: uninstall_def io_defs start_def main_def no_arguments_def sys_exit_def)

theorem uninstall_absent_witness:
  "uninstall (start bare_host [])
     = (Inr True, \<lparr>machine = bare_host, stdin = [], trace = [Called IsInstalled False]\<rparr>)
   \<and> main all_installed False (only_flag ''--uninstall'') (start bare_host [])
     = (Exit 0, \<lparr>machine = bare_host, stdin = [], trace = [Called IsInstalled False]\<rparr>)"
proof -
  have 1: "check_prerequisites bare_host" by code_simp
  have 2: "\<not> is_installed bare_host" by code_simp
  have 3: "arg_uninstall (only_flag ''--uninstall'') \<and> \<not> arg_status (only_flag ''--uninstall'')"
    by code_simp
  from uninstall_absent[OF 1 2, of "[]" "only_flag ''--uninstall''" all_installed False] 3
  show ?thesis by simp
qed

text \<open>
  C8 as stated fails without elevation: the prerequisite check comes first, so on an
  unelevated host with no context menu uninstall returns \<open>False\<close> and the process
  exits with status 1.
\<close>

theorem uninstall_unelevated_counterexample:
  "\<not> is_installed unelevated_host
   \<and> fst (uninstall (start unelevated_host [])) = Inr False
   \<and> fst (main all_installed False (only_flag ''--uninstall'') (start unelevated_host []))
     = Exit 1"
  by code_simp

section \<open>The other probes and the context-menu mode\<close>

text \<open>
  C7, as the code has it. The probe \<open>is_claude_installed\<close> returns satisfied if and only
  if the phase-1 query \<open>which claude\<close> completes and either it exits 0 with output
  that is not empty once surrounding whitespace is stripped, or the phase-2 query
  \<open>claude --version\<close> completes with exit code 0. When phase 1 cannot be run (missing
  executable, timeout) phase 2 is not tried and the probe returns unsatisfied.
\<close>

theorem is_claude_installed_iff:
  "is_claude_installed P h =
     (\<exists>rc out. query P [''wsl'', ''-d'', ''Ubuntu'', ''bash'', ''-ic'', ''which claude''] (guest h)
                  = Exited rc out
        \<and> ((rc = 0 \<and> strip out \<noteq> [])
           \<or> (\<exists>out2. query P [''wsl'', ''-d'', ''Ubuntu'', ''bash'', ''-ic'', ''claude --version'']
                          (guest h) = Exited 0 out2)))"
  by (cases "query P [''wsl'', ''-d'', ''Ubuntu'', ''bash'', ''-ic'', ''which claude''] (guest h)";
      cases "query P [''wsl'', ''-d'', ''Ubuntu'', ''bash'', ''-ic'', ''claude --version''] (guest h)")
     (simp_all add: is_claude_installed_def run_query_def completion_def)

theorem is_claude_installed_iff_witness:
  "\<exists>rc out. query version_only [''wsl'', ''-d'', ''Ubuntu'', ''bash'', ''-ic'', ''which claude'']
               (guest bare_host) = Exited rc out
     \<and> ((rc = 0 \<and> strip out \<noteq> [])
        \<or> (\<exists>out2. query version_only
                      [''wsl'', ''-d'', ''Ubuntu'', ''bash'', ''-ic'', ''claude --version'']
                      (guest bare_host) = Exited 0 out2))"
proof -
  have "is_claude_installed version_only bare_host" by code_simp
  then show ?thesis using is_claude_installed_iff[of version_only bare_host] by simp
qed

text \<open>
  C7 as stated fails: when \<open>which claude\<close> exits 0 and prints only a line break, its
  output is not empty, yet phase 1 does not count; with phase 2 failing the probe returns
  unsatisfied.
\<close>

theorem blank_locate_counterexample:
  "spec_two_phase_or blank_locate bare_host \<and> \<not> is_claude_installed blank_locate bare_host"
  by code_simp

text \<open>
  C10. The ShellIntegration probe \<open>is_installed\<close> looks at the folder-background key
  \<open>Directory\Background\shell\OpenInClaude\<close> alone: it returns satisfied if and only if
  that key exists and can be opened. Removing the sibling folder key and the launcher
  directory does not change its answer.
\<close>

theorem is_installed_background_key_only:
  "is_installed h
     = (has_key h [''Directory'', ''Background'', ''shell'', ''OpenInClaude'']
        \<and> \<not> refuses h (OpenKey [''Directory'', ''Background'', ''shell'', ''OpenInClaude'']))
   \<and> is_installed
       (h\<lparr>hkcr := AList.delete [''Directory'', ''shell'', ''OpenInClaude''] (hkcr h),
          scripts_dir := None\<rparr>)
     = is_installed h"
  by (auto simp add: is_installed_def winreg_OpenKey_def key_path_background has_key_def
      delete_conv' Let_def)

theorem is_installed_background_key_only_witness:
  "is_installed background_only_host
   \<and> \<not> has_key background_only_host [''Directory'', ''shell'', ''OpenInClaude'']
   \<and> \<not> launcher_exists background_only_host"
proof -
  have "has_key background_only_host [''Directory'', ''Background'', ''shell'', ''OpenInClaude'']
        \<and> \<not> refuses background_only_host
              (OpenKey [''Directory'', ''Background'', ''shell'', ''OpenInClaude''])"
    by code_simp
  then have "is_installed background_only_host"
    using is_installed_background_key_only[of background_only_host] by simp
  moreover have "\<not> has_key background_only_host [''Directory'', ''shell'', ''OpenInClaude'']
                 \<and> \<not> launcher_exists background_only_host"
    by code_simp
  ultimately show ?thesis by simp
qed

text \<open>
  C9, as the code has it. Once the prerequisite check has passed, the mode calls the
  ApplicationRuntime+App probe and never the probes of VirtualizationLayer or
  GuestDistribution. If the probe is satisfied it installs the context menu. If not, it
  asks the operator: on \<open>y\<close> or \<open>yes\<close> it installs the context menu and returns the
  result of the install, on any other answer it returns \<open>False\<close> and changes nothing.
\<close>

theorem context_menu_only:
  assumes "check_prerequisites h"
  shows "install_context_menu_only P (start h answers) =
     (if is_claude_installed P h
      then (Inr (fst (install_context_menu h)),
            \<lparr>machine = snd (install_context_menu h), stdin = answers,
             trace = [Called IsClaudeInstalled True,
                      Called InstallContextMenu (fst (install_context_menu h))]\<rparr>)
      else case answers of
        [] \<Rightarrow> (Inl EOFError,
               \<lparr>machine = h, stdin = [], trace = [Called IsClaudeInstalled False]\<rparr>)
      | answer # rest \<Rightarrow>
          if says_yes answer
          then (Inr (fst (install_context_menu h)),
                \<lparr>machine = snd (install_context_menu h), stdin = rest,
                 trace = [Called IsClaudeInstalled False,
                          Asked ''Do you want to continue anyway? (y/n): '' answer,
                          Called InstallContextMenu (fst (install_context_menu h))]\<rparr>)
          else (Inr False,
                \<lparr>machine = h, stdin = rest,
                 trace = [Called IsClaudeInstalled False,
                          Asked ''Do you want to continue anyway? (y/n): '' answer]\<rparr>))
     \<and> \<not> reached (trace (snd (install_context_menu_only P (start h answers))))
           VirtualizationLayer
     \<and> \<not> reached (trace (snd (install_context_menu_only P (start h answers))))
           GuestDistribution"
  using assms
  by (simp add: install_context_menu_only_def io_defs start_def reached_def
      split: prod.splits list.splits)

theorem context_menu_only_witness:
  "fst (install_context_menu_only wsl_install_fails (start bare_host [''Yes''])) = Inr True
   \<and> trace (snd (install_context_menu_only wsl_install_fails (start bare_host [''Yes''])))
     = [Called IsClaudeInstalled False,
        Asked ''Do you want to continue anyway? (y/n): '' ''Yes'',
        Called InstallContextMenu True]
   \<and> fst (install_context_menu_only wsl_install_fails (start bare_host [''n''])) = Inr False
   \<and> machine (snd (install_context_menu_only wsl_install_fails (start bare_host [''n''])))
     = bare_host"
proof -
  have 1: "check_prerequisites bare_host" by code_simp
  have 2: "\<not> is_claude_installed wsl_install_fails bare_host" by code_simp
  have 3: "says_yes ''Yes''" "\<not> says_yes ''n''" by code_simp+
  have 4: "fst (install_context_menu bare_host)" by code_simp
  from context_menu_only[OF 1, of wsl_install_fails "[''Yes'']"]
    context_menu_only[OF 1, of wsl_install_fails "[''n'']"] 2 3 4
  show ?thesis by simp
qed

text \<open>
  C9 as stated fails without elevation: the prerequisite check comes first, so on an
  unelevated host the mode returns \<open>False\<close> with nothing probed, asked or installed,
  even though the application probe is unsatisfied and the operator would confirm.
\<close>

theorem context_menu_only_unelevated_counterexample:
  "\<not> is_claude_installed wsl_install_fails unelevated_host
   \<and> says_yes ''y''
   \<and> fst (install_context_menu_only wsl_install_fails (start unelevated_host [''y'']))
     = Inr False
   \<and> trace (snd (install_context_menu_only wsl_install_fails (start unelevated_host [''y''])))
     = []"
  by code_simp

end
